theory Spec2Isabelle
  imports Main
begin

section \<open>Strings\<close>

text \<open>
  JavaScript strings are modelled as \<open>string\<close> (lists of characters; the characters of
  the markup that the expressions below look for are all ASCII).  The backslash cannot be
  written inside a string literal, so it gets a name.
\<close>

abbreviation bs :: char where
  "bs \<equiv> CHR 0x5C"

text \<open>\<^verbatim>\<open>s.startsWith(p)\<close>\<close>

fun startsWith :: "string \<Rightarrow> string \<Rightarrow> bool" where
  "startsWith s [] = True"
| "startsWith [] (p # ps) = False"
| "startsWith (c # cs) (p # ps) = (c = p \<and> startsWith cs ps)"

text \<open>\<^verbatim>\<open>s.endsWith(p)\<close>\<close>

definition endsWith :: "string \<Rightarrow> string \<Rightarrow> bool" where
  "endsWith s p = startsWith (rev s) (rev p)"

text \<open>\<^verbatim>\<open>s.includes(p)\<close>: some suffix of \<open>s\<close> starts with \<open>p\<close>.\<close>

fun includes_str :: "string \<Rightarrow> string \<Rightarrow> bool" where
  "includes_str [] p = startsWith [] p"
| "includes_str (c # cs) p = (startsWith (c # cs) p \<or> includes_str cs p)"

text \<open>
  \<^verbatim>\<open>path.split('/').pop() || path\<close>: the part after the last slash; when that part is
  empty (the path ends with a slash) the empty string is falsy and the whole path is taken.
\<close>

definition lastSegment :: "string \<Rightarrow> string" where
  "lastSegment path = rev (takeWhile (\<lambda>c. c \<noteq> CHR ''/'') (rev path))"

definition popOrPath :: "string \<Rightarrow> string" where
  "popOrPath path = (if lastSegment path = [] then path else lastSegment path)"

section \<open>Global regular-expression replacement\<close>

text \<open>
  \<^verbatim>\<open>text.replace(/re/g, callback)\<close> scans the text from left to right.  At each position
  the expression is tried; on a match the callback's result is spliced in and the scan
  resumes after the match, otherwise the character is copied and the scan moves one
  character on.  A matcher takes the text from the current position and returns the
  captured group together with the text that follows the match.  The scan is split from
  the callback: \<open>scanMatches\<close> yields the copied characters and the matches in textual
  order, so that a callback with side effects can be folded over them in that order.

  Every expression modelled here starts with a literal, so a match is never empty; the
  branch for a matcher that consumes nothing only makes the scan total.
\<close>

datatype 'g seg = Lit char | Match string 'g

function scanMatches :: "(string \<Rightarrow> ('g \<times> string) option) \<Rightarrow> string \<Rightarrow> 'g seg list" where
  "scanMatches m [] = []"
| "scanMatches m (c # cs) =
     (case m (c # cs) of
        None \<Rightarrow> Lit c # scanMatches m cs
      | Some (g, rest) \<Rightarrow>
          if length rest \<le> length cs
          then Match (take (length (c # cs) - length rest) (c # cs)) g # scanMatches m rest
          else Lit c # scanMatches m cs)"
  by pat_completeness auto

termination
  by (relation "measure (\<lambda>(m, s). length s)") auto

text \<open>The group \<^verbatim>\<open>\{([^}]+)\}\<close>: an opening brace, one or more characters other than
  the closing brace (line breaks included), and the closing brace.\<close>

definition braceGroup :: "string \<Rightarrow> (string \<times> string) option" where
  "braceGroup s =
     (case s of
        [] \<Rightarrow> None
      | c # t \<Rightarrow>
          if c \<noteq> CHR ''{'' then None
          else (let g = takeWhile (\<lambda>x. x \<noteq> CHR ''}'') t;
                    r = dropWhile (\<lambda>x. x \<noteq> CHR ''}'') t
                in if g = [] \<or> r = [] then None else Some (g, tl r)))"

section \<open>The project tree\<close>

datatype NodeType = File | Folder

datatype FileNode = FileNode
  (node_id: string)
  (node_name: string)
  (node_type: NodeType)
  (node_content: "string option")
  (node_children: "FileNode list option")
  (node_isOpen: "bool option")

text \<open>
  A \<^verbatim>\<open>Record<string, FileNode>\<close> is an association list of the object's own keys, in the
  order in which \<^verbatim>\<open>Object.keys\<close> and \<^verbatim>\<open>Object.values\<close> enumerate them (insertion
  order, for keys that are not array indices); \<^verbatim>\<open>acc[k] = v\<close> keeps the place of a key
  that is already there.  The file map is read only through \<^verbatim>\<open>Object.values\<close> and under
  the key \<^verbatim>\<open>main.tex\<close>, which is no property of \<^verbatim>\<open>Object.prototype\<close>, so there
  \<^verbatim>\<open>acc[k]\<close> is \<open>map_of acc k\<close>; the asset map is read under names taken from the
  document, and its inherited properties are modelled with it (step 8 below).
\<close>

type_synonym fileMap = "(string \<times> FileNode) list"

fun setKey :: "string \<Rightarrow> 'v \<Rightarrow> (string \<times> 'v) list \<Rightarrow> (string \<times> 'v) list" where
  "setKey k v [] = [(k, v)]"
| "setKey k v ((k', v') # kvs) = (if k' = k then (k, v) # kvs else (k', v') # setKey k v kvs)"

definition objectValues :: "(string \<times> 'v) list \<Rightarrow> 'v list" where
  "objectValues m = map snd m"

definition objectKeys :: "(string \<times> 'v) list \<Rightarrow> string list" where
  "objectKeys m = map fst m"

text \<open>JavaScript truthiness of an optional string: present and not empty.\<close>

fun truthy :: "string option \<Rightarrow> bool" where
  "truthy None = False"
| "truthy (Some s) = (s \<noteq> [])"

section \<open>Import resolution (\<^verbatim>\<open>resolveLatexImports\<close>, App.tsx)\<close>

text \<open>The expression \<^verbatim>\<open>/\\(?:input|include)\{([^}]+)\}/g\<close>.\<close>

definition matchImport :: "string \<Rightarrow> (string \<times> string) option" where
  "matchImport s =
     (if startsWith s (bs # ''input'') then braceGroup (drop 6 s)
      else if startsWith s (bs # ''include'') then braceGroup (drop 8 s)
      else None)"

text \<open>
  \<^verbatim>\<open>let filename = importPath.split('/').pop() || importPath;
  if (!filename.endsWith('.tex')) filename += '.tex';\<close>
\<close>

definition importFilename :: "string \<Rightarrow> string" where
  "importFilename importPath =
     (let filename = popOrPath importPath
      in if \<not> endsWith filename ''.tex'' then filename @ ''.tex'' else filename)"

definition loopMarker :: "string \<Rightarrow> string" where
  "loopMarker filename = ''\<newline>% Recursive loop detected: '' @ filename @ ''\<newline>''"

definition missingMarker :: "string \<Rightarrow> string" where
  "missingMarker filename = ''\<newline>% Missing file: '' @ filename @ ''\<newline>''"

definition beginMarker :: "string \<Rightarrow> string" where
  "beginMarker filename = ''\<newline>% Begin '' @ filename @ ''\<newline>''"

definition endMarker :: "string \<Rightarrow> string" where
  "endMarker filename = ''\<newline>% End '' @ filename @ ''\<newline>''"

text \<open>\<^verbatim>\<open>Object.values(fileMap).find(f => f.name === filename)\<close>\<close>

definition findByName :: "fileMap \<Rightarrow> string \<Rightarrow> FileNode option" where
  "findByName fileMap filename = find (\<lambda>f. node_name f = filename) (objectValues fileMap)"

definition fileNames :: "fileMap \<Rightarrow> string set" where
  "fileNames fileMap = set (map node_name (objectValues fileMap))"

function resolveLatexImports :: "string \<Rightarrow> fileMap \<Rightarrow> string set \<Rightarrow> string" where
  "resolveLatexImports content fileMap processed =
     concat (map (\<lambda>s. case s of
         Lit c \<Rightarrow> [c]
       | Match whole importPath \<Rightarrow>
           (let filename = importFilename importPath;
                fileNode = findByName fileMap filename
            in if filename \<in> processed then loopMarker filename
               else (case fileNode of
                   None \<Rightarrow> missingMarker filename
                 | Some f \<Rightarrow>
                     if truthy (node_content f)
                     then beginMarker filename
                          @ resolveLatexImports (the (node_content f)) fileMap (insert filename processed)
                          @ endMarker filename
                     else missingMarker filename)))
       (scanMatches matchImport content))"
  by pat_completeness auto

termination
proof (relation "measure (\<lambda>(content, fileMap, processed). card (fileNames fileMap - processed))",
    goal_cases)
  case 1
  show ?case by simp
next
  case (2 content fileMap processed s whole importPath filename fileNode f)
  then have "find (\<lambda>f. node_name f = filename) (objectValues fileMap) = Some f"
    by (simp add: findByName_def)
  then have "filename \<in> fileNames fileMap"
    by (auto simp: fileNames_def find_Some_iff)
  moreover have "filename \<notin> processed"
    using 2 by simp
  ultimately have "fileNames fileMap - insert filename processed \<subset> fileNames fileMap - processed"
    by auto
  moreover have "finite (fileNames fileMap - processed)"
    by (simp add: fileNames_def)
  ultimately show ?case
    by (simp add: psubset_card_mono)
qed

declare resolveLatexImports.simps [simp del]

subsection \<open>The call tree of the resolution\<close>

text \<open>
  The same recursion, returning the tree of what each call emitted instead of the
  flattened text: a copied character, a loop marker, a missing-file marker, or an expanded
  file with the tree of its own resolution.  \<open>render\<close> flattens the tree exactly as the
  template strings of the source do; \<open>render_resolveTree\<close> below shows that the flattened
  tree is the text \<open>resolveLatexImports\<close> returns.
\<close>

datatype itree = TChar char | TLoop string | TMissing string | TIncluded string "itree list"

function resolveTree :: "string \<Rightarrow> fileMap \<Rightarrow> string set \<Rightarrow> itree list" where
  "resolveTree content fileMap processed =
     map (\<lambda>s. case s of
         Lit c \<Rightarrow> TChar c
       | Match whole importPath \<Rightarrow>
           (let filename = importFilename importPath;
                fileNode = findByName fileMap filename
            in if filename \<in> processed then TLoop filename
               else (case fileNode of
                   None \<Rightarrow> TMissing filename
                 | Some f \<Rightarrow>
                     if truthy (node_content f)
                     then TIncluded filename
                            (resolveTree (the (node_content f)) fileMap (insert filename processed))
                     else TMissing filename)))
       (scanMatches matchImport content)"
  by pat_completeness auto

termination
proof (relation "measure (\<lambda>(content, fileMap, processed). card (fileNames fileMap - processed))",
    goal_cases)
  case 1
  show ?case by simp
next
  case (2 content fileMap processed s whole importPath filename fileNode f)
  then have "find (\<lambda>f. node_name f = filename) (objectValues fileMap) = Some f"
    by (simp add: findByName_def)
  then have "filename \<in> fileNames fileMap"
    by (auto simp: fileNames_def find_Some_iff)
  moreover have "filename \<notin> processed"
    using 2 by simp
  ultimately have "fileNames fileMap - insert filename processed \<subset> fileNames fileMap - processed"
    by auto
  moreover have "finite (fileNames fileMap - processed)"
    by (simp add: fileNames_def)
  ultimately show ?case
    by (simp add: psubset_card_mono)
qed

declare resolveTree.simps [simp del]

fun render :: "itree \<Rightarrow> string" where
  "render (TChar c) = [c]"
| "render (TLoop filename) = loopMarker filename"
| "render (TMissing filename) = missingMarker filename"
| "render (TIncluded filename ts) = beginMarker filename @ concat (map render ts) @ endMarker filename"

text \<open>The loop markers emitted, in textual order of the output.\<close>

fun loopsOf :: "itree \<Rightarrow> string list" where
  "loopsOf (TChar c) = []"
| "loopsOf (TLoop filename) = [filename]"
| "loopsOf (TMissing filename) = []"
| "loopsOf (TIncluded filename ts) = concat (map loopsOf ts)"

text \<open>The files expanded, in textual order of their begin markers, each with the tree
  that stands between its begin and end markers.\<close>

fun expansionsOf :: "itree \<Rightarrow> (string \<times> itree list) list" where
  "expansionsOf (TChar c) = []"
| "expansionsOf (TLoop filename) = []"
| "expansionsOf (TMissing filename) = []"
| "expansionsOf (TIncluded filename ts) = (filename, ts) # concat (map expansionsOf ts)"

text \<open>The number of nested recursive calls below a call that returned the given trees.\<close>

fun depthOf :: "itree \<Rightarrow> nat" where
  "depthOf (TChar c) = 0"
| "depthOf (TLoop filename) = 0"
| "depthOf (TMissing filename) = 0"
| "depthOf (TIncluded filename ts) = Suc (fold max (map depthOf ts) 0)"

definition recursionDepth :: "itree list \<Rightarrow> nat" where
  "recursionDepth ts = fold max (map depthOf ts) 0"

text \<open>The paths of the inclusion directives of a text, in textual order.\<close>

fun importPathsOf :: "string seg list \<Rightarrow> string list" where
  "importPathsOf [] = []"
| "importPathsOf (Lit c # segs) = importPathsOf segs"
| "importPathsOf (Match whole importPath # segs) = importPath # importPathsOf segs"

definition importedFiles :: "string \<Rightarrow> string list" where
  "importedFiles content = map importFilename (importPathsOf (scanMatches matchImport content))"

text \<open>What one directive is replaced by, as a tree and as text: the body of the callback,
  named so that the proofs can speak about a single directive.\<close>

definition expandImport :: "fileMap \<Rightarrow> string set \<Rightarrow> string \<Rightarrow> itree" where
  "expandImport fileMap processed filename =
     (if filename \<in> processed then TLoop filename
      else (case findByName fileMap filename of
          None \<Rightarrow> TMissing filename
        | Some f \<Rightarrow>
            if truthy (node_content f)
            then TIncluded filename
                   (resolveTree (the (node_content f)) fileMap (insert filename processed))
            else TMissing filename))"

definition expandSeg :: "fileMap \<Rightarrow> string set \<Rightarrow> string seg \<Rightarrow> itree" where
  "expandSeg fileMap processed s =
     (case s of
        Lit c \<Rightarrow> TChar c
      | Match whole importPath \<Rightarrow> expandImport fileMap processed (importFilename importPath))"

definition expandImportText :: "fileMap \<Rightarrow> string set \<Rightarrow> string \<Rightarrow> string" where
  "expandImportText fileMap processed filename =
     (if filename \<in> processed then loopMarker filename
      else (case findByName fileMap filename of
          None \<Rightarrow> missingMarker filename
        | Some f \<Rightarrow>
            if truthy (node_content f)
            then beginMarker filename
                 @ resolveLatexImports (the (node_content f)) fileMap (insert filename processed)
                 @ endMarker filename
            else missingMarker filename))"

definition expandText :: "fileMap \<Rightarrow> string set \<Rightarrow> string seg \<Rightarrow> string" where
  "expandText fileMap processed s =
     (case s of
        Lit c \<Rightarrow> [c]
      | Match whole importPath \<Rightarrow> expandImportText fileMap processed (importFilename importPath))"

text \<open>The file map without the files of a given name.\<close>

definition removeNamed :: "string \<Rightarrow> fileMap \<Rightarrow> fileMap" where
  "removeNamed filename fileMap = filter (\<lambda>kv. node_name (snd kv) \<noteq> filename) fileMap"

text \<open>Some position of the text starts an inclusion directive
  (\<^verbatim>\<open>/\\(?:input|include)\{([^}]+)\}/.test(content)\<close>).\<close>

fun containsImport :: "string \<Rightarrow> bool" where
  "containsImport [] = False"
| "containsImport (c # cs) = (matchImport (c # cs) \<noteq> None \<or> containsImport cs)"

section \<open>The compile step (\<^verbatim>\<open>handleRecompile\<close>, App.tsx)\<close>

record Project =
  project_id :: string
  project_name :: string
  root :: FileNode
  lastModified :: nat
  owner :: string

datatype LogType = Info | Error | Warning

record LogEntry =
  log_id :: string
  log_type :: LogType
  log_message :: string
  log_file :: "string option"
  log_line :: "nat option"
  log_timestamp :: nat

text \<open>The React state the compile step writes to.\<close>

record AppState =
  compiledContent :: string
  previewAssets :: "(string \<times> string) list"
  logs :: "LogEntry list"
  isCompiling :: bool

text \<open>\<^verbatim>\<open>n.toString()\<close> for a natural number: its decimal digits.\<close>

definition digitChar :: "nat \<Rightarrow> char" where
  "digitChar d = ''0123456789'' ! d"

function showNat :: "nat \<Rightarrow> string" where
  "showNat n = (if n < 10 then [digitChar n] else showNat (n div 10) @ [digitChar (n mod 10)])"
  by pat_completeness auto

termination
  by (relation "measure (\<lambda>n. n)") auto

declare showNat.simps [simp del]

fun findNode :: "FileNode list \<Rightarrow> string \<Rightarrow> FileNode option" where
  "findNode [] i = None"
| "findNode (FileNode nid nm ty co ch op # nodes) i =
     (if nid = i then Some (FileNode nid nm ty co ch op)
      else (case ch of
          None \<Rightarrow> findNode nodes i
        | Some cs \<Rightarrow>
            (case findNode cs i of
               Some found \<Rightarrow> Some found
             | None \<Rightarrow> findNode nodes i)))"

text \<open>
  \<^verbatim>\<open>acc[node.name] = node\<close> adds or replaces an own key, except under the name
  \<^verbatim>\<open>__proto__\<close>: that assignment runs the setter inherited from \<^verbatim>\<open>Object.prototype\<close>,
  which makes the node the prototype of \<^verbatim>\<open>acc\<close> and adds no key.  A node has no property
  named \<^verbatim>\<open>main.tex\<close>, so the lookups described above are not affected by it.
\<close>

fun flattenProjectFiles :: "FileNode \<Rightarrow> fileMap \<Rightarrow> fileMap" where
  "flattenProjectFiles (FileNode nid nm ty co ch op) acc =
     (if ty = File
      then (if nm = ''__proto__'' then acc else setKey nm (FileNode nid nm ty co ch op) acc)
      else (case ch of
          None \<Rightarrow> acc
        | Some cs \<Rightarrow> fold flattenProjectFiles cs acc))"

text \<open>\<^verbatim>\<open>/\.(png|jpe?g|gif|svg)$/i.test(name)\<close>: the name ends with one of the
  extensions, letters compared without regard to case.\<close>

definition lowerChar :: "char \<Rightarrow> char" where
  "lowerChar c =
     (let n = (of_char c :: nat) in if 65 \<le> n \<and> n \<le> 90 then char_of (n + 32) else c)"

definition hasImageExt :: "string \<Rightarrow> bool" where
  "hasImageExt nm =
     (let l = map lowerChar nm
      in endsWith l ''.png'' \<or> endsWith l ''.jpg'' \<or> endsWith l ''.jpeg''
         \<or> endsWith l ''.gif'' \<or> endsWith l ''.svg'')"

definition extractAssets :: "FileNode list \<Rightarrow> (string \<times> string) list" where
  "extractAssets allFiles =
     fold (\<lambda>f assets.
        if truthy (node_content f) \<and> hasImageExt (node_name f)
        then setKey (node_name f) (the (node_content f)) assets
        else assets) allFiles []"

text \<open>The entry file: \<^verbatim>\<open>main.tex\<close>, else the active node when its name ends with
  \<^verbatim>\<open>.tex\<close>, else the first file whose name does.\<close>

definition findMainFile :: "Project \<Rightarrow> string \<Rightarrow> FileNode option" where
  "findMainFile activeProject activeFileId =
     (let fileMap = flattenProjectFiles (root activeProject) [];
          allFiles = objectValues fileMap
      in case map_of fileMap ''main.tex'' of
           Some mainFile \<Rightarrow> Some mainFile
         | None \<Rightarrow>
             (let activeNode =
                    findNode (case node_children (root activeProject) of None \<Rightarrow> [] | Some cs \<Rightarrow> cs)
                      activeFileId
              in case activeNode of
                   None \<Rightarrow> find (\<lambda>f. endsWith (node_name f) ''.tex'') allFiles
                 | Some n \<Rightarrow>
                     if endsWith (node_name n) ''.tex'' then Some n
                     else find (\<lambda>f. endsWith (node_name f) ''.tex'') allFiles))"

definition compileLogs :: "string \<Rightarrow> FileNode \<Rightarrow> nat \<Rightarrow> nat \<Rightarrow> LogEntry list" where
  "compileLogs resolvedContent mainFile now1 now2 =
     (if \<not> includes_str resolvedContent (bs # ''documentclass'')
      then [\<lparr>log_id = showNat now1, log_type = Warning,
             log_message = ''Missing '' @ bs # ''documentclass declaration. Preview may not render correctly.'',
             log_file = Some (node_name mainFile), log_line = None, log_timestamp = now2\<rparr>]
      else [\<lparr>log_id = showNat now1, log_type = Info,
             log_message = ''Compilation finished. Output: project.pdf'',
             log_file = None, log_line = None, log_timestamp = now2\<rparr>])"

definition noMainFileLog :: "nat \<Rightarrow> LogEntry" where
  "noMainFileLog now1 =
     \<lparr>log_id = ''err'', log_type = Error,
      log_message = ''No main LaTeX file found to compile.'',
      log_file = None, log_line = None, log_timestamp = now1\<rparr>"

text \<open>
  The state once the timer callback of \<^verbatim>\<open>handleRecompile\<close> has run.  \<open>now1\<close> and \<open>now2\<close>
  are the readings of \<^verbatim>\<open>Date.now()\<close> in the callback, in the order they are taken.
  Without an active project the function returns at once and writes nothing.
\<close>

definition handleRecompile :: "Project option \<Rightarrow> string \<Rightarrow> nat \<Rightarrow> nat \<Rightarrow> AppState \<Rightarrow> AppState" where
  "handleRecompile activeProject activeFileId now1 now2 st =
     (case activeProject of
        None \<Rightarrow> st
      | Some project \<Rightarrow>
          (let fileMap = flattenProjectFiles (root project) [];
               allFiles = objectValues fileMap;
               mainFile = findMainFile project activeFileId
           in if mainFile \<noteq> None \<and> truthy (node_content (the mainFile))
              then
                (let resolvedContent =
                       resolveLatexImports (the (node_content (the mainFile))) fileMap {};
                     assets = extractAssets allFiles
                 in st\<lparr>previewAssets := assets,
                       compiledContent := resolvedContent,
                       logs := compileLogs resolvedContent (the mainFile) now1 now2,
                       isCompiling := False\<rparr>)
              else st\<lparr>logs := [noMainFileLog now1], isCompiling := False\<rparr>))"

section \<open>Stages of the preview renderer (\<^verbatim>\<open>parseLatexToHtml\<close>, Preview)\<close>

text \<open>
  \<^verbatim>\<open>parseLatexToHtml\<close> is a sequence of assignments
  \<^verbatim>\<open>processed = processed.replace(...)\<close>.  The stages below are the transformations of
  \<open>processed\<close> made by step 8 (images), step 9 (chapters and sections) and step 13
  (math), each a function of the text it receives from the step before.
\<close>

definition replaceAll ::
  "(string \<Rightarrow> ('g \<times> string) option) \<Rightarrow> (string \<Rightarrow> 'g \<Rightarrow> string) \<Rightarrow> string \<Rightarrow> string" where
  "replaceAll m callback txt =
     concat (map (\<lambda>s. case s of Lit c \<Rightarrow> [c] | Match whole g \<Rightarrow> callback whole g)
       (scanMatches m txt))"

subsection \<open>Step 8: images\<close>

text \<open>
  \<^verbatim>\<open>/\\includegraphics(?:\[.*?\])?\{([^}]+)\}/g\<close>.  The optional bracket is tried first; its
  lazy body grows one character at a time, never over a line terminator, until a closing
  bracket is followed by the brace group.
\<close>

definition isLineTerminator :: "char \<Rightarrow> bool" where
  "isLineTerminator c = (c = CHR 0x0A \<or> c = CHR 0x0D)"

fun lazyBracket :: "string \<Rightarrow> (string \<times> string) option" where
  "lazyBracket [] = None"
| "lazyBracket (c # cs) =
     (if c = CHR '']''
      then (case braceGroup cs of Some r \<Rightarrow> Some r | None \<Rightarrow> lazyBracket cs)
      else if isLineTerminator c then None
      else lazyBracket cs)"

definition matchIncludegraphics :: "string \<Rightarrow> (string \<times> string) option" where
  "matchIncludegraphics s =
     (if startsWith s (bs # ''includegraphics'')
      then (let t = drop 16 s
            in case (case t of [] \<Rightarrow> None
                     | c # r \<Rightarrow> if c = CHR ''['' then lazyBracket r else None) of
                 Some r \<Rightarrow> Some r
               | None \<Rightarrow> braceGroup t)
      else None)"

text \<open>
  The asset map is a plain object: \<^verbatim>\<open>assets[name]\<close> finds the object's own key, and
  where there is none, the property of that name which every plain object inherits from
  \<^verbatim>\<open>Object.prototype\<close> (\<^verbatim>\<open>constructor\<close>, \<^verbatim>\<open>toString\<close>, \<^verbatim>\<open>__proto__\<close>, ...).  The value
  read is undefined, a string, or an inherited function or object, which is truthy and
  which the template literal of the callback prints as some text.  The prototype is
  taken as a parameter: it gives the inherited value for each name.
\<close>

datatype jsValue = Undefined | Str string | Obj string

fun truthyValue :: "jsValue \<Rightarrow> bool" where
  "truthyValue Undefined = False"
| "truthyValue (Str s) = (s \<noteq> [])"
| "truthyValue (Obj t) = True"

text \<open>\<^verbatim>\<open>`${v}`\<close>\<close>

fun printed :: "jsValue \<Rightarrow> string" where
  "printed Undefined = ''undefined''"
| "printed (Str s) = s"
| "printed (Obj t) = t"

type_synonym prototype = "string \<Rightarrow> jsValue"

definition getProperty :: "(string \<times> string) list \<Rightarrow> prototype \<Rightarrow> string \<Rightarrow> jsValue" where
  "getProperty obj proto k = (case map_of obj k of Some v \<Rightarrow> Str v | None \<Rightarrow> proto k)"

text \<open>\<^verbatim>\<open>a || b\<close>\<close>

definition jsOr :: "jsValue \<Rightarrow> jsValue \<Rightarrow> jsValue" where
  "jsOr a b = (if truthyValue a then a else b)"

text \<open>
  \<^verbatim>\<open>let src = assets[filename] || assets[filename + '.png'] || assets[filename + '.jpg']
            || assets[filename + '.jpeg'];
  if (!src) { Object.keys(assets).forEach(key => {
      if (key.includes(filename)) src = assets[key]; }); }\<close>
\<close>

definition resolveSrc :: "(string \<times> string) list \<Rightarrow> prototype \<Rightarrow> string \<Rightarrow> jsValue" where
  "resolveSrc assets proto filename =
     (let src = jsOr (jsOr (jsOr (getProperty assets proto filename)
                                 (getProperty assets proto (filename @ ''.png'')))
                           (getProperty assets proto (filename @ ''.jpg'')))
                     (getProperty assets proto (filename @ ''.jpeg''))
      in if \<not> truthyValue src
         then fold (\<lambda>key src. if includes_str key filename then getProperty assets proto key else src)
                (objectKeys assets) src
         else src)"

definition imgTag :: "string \<Rightarrow> string \<Rightarrow> string" where
  \<open>imgTag src filename =
     ''<img src="'' @ src @ ''" alt="'' @ filename
       @ ''" style="max-width: 100%; height: auto; display: block; margin: 1rem auto;" />''\<close>

definition missingImage :: "string \<Rightarrow> string" where
  \<open>missingImage filename =
     ''<div class="bg-red-50 border border-red-200 text-red-500 text-xs p-2 text-center rounded my-4 font-mono">Missing Image: ''
       @ filename @ ''</div>''\<close>

definition imageCallback ::
  "(string \<times> string) list \<Rightarrow> prototype \<Rightarrow> string \<Rightarrow> string \<Rightarrow> string" where
  "imageCallback assets proto whole path =
     (let filename = popOrPath path;
          src = resolveSrc assets proto filename
      in if truthyValue src then imgTag (printed src) filename else missingImage filename)"

definition imagesStage :: "(string \<times> string) list \<Rightarrow> prototype \<Rightarrow> string \<Rightarrow> string" where
  "imagesStage assets proto processed =
     replaceAll matchIncludegraphics (imageCallback assets proto) processed"

text \<open>
  The properties that a plain object inherits from \<^verbatim>\<open>Object.prototype\<close>, each with the text
  that the template literal prints for it in the browser: the functions as
  \<^verbatim>\<open>function name() { [native code] }\<close>, the prototype object itself as
  \<^verbatim>\<open>[object Object]\<close>.
\<close>

definition objectPrototype :: prototype where
  "objectPrototype name =
     (if name = ''constructor'' then Obj ''function Object() { [native code] }''
      else if name = ''__proto__'' then Obj ''[object Object]''
      else if name \<in> set [''toString'', ''toLocaleString'', ''valueOf'', ''hasOwnProperty'',
                ''isPrototypeOf'', ''propertyIsEnumerable'', ''__defineGetter__'',
                ''__defineSetter__'', ''__lookupGetter__'', ''__lookupSetter__'']
      then Obj (''function '' @ name @ ''() { [native code] }'')
      else Undefined)"

subsection \<open>Step 9: chapters, sections, subsections\<close>

record Counters =
  chapterCount :: nat
  sectionCount :: nat
  subsectionCount :: nat

definition initCounters :: Counters where
  "initCounters = \<lparr>chapterCount = 0, sectionCount = 0, subsectionCount = 0\<rparr>"

text \<open>\<^verbatim>\<open>/\\chapter\*?\{([^}]+)\}/g\<close> and its two siblings: the command, an optional star,
  the brace group.\<close>

definition matchHeading :: "string \<Rightarrow> string \<Rightarrow> (string \<times> string) option" where
  "matchHeading command s =
     (if startsWith s (bs # command)
      then (let t = drop (Suc (length command)) s
            in case t of
                 [] \<Rightarrow> None
               | c # r \<Rightarrow> if c = CHR ''*'' then braceGroup r else braceGroup t)
      else None)"

text \<open>A replacement whose callback reads and writes the counters: the callback runs
  once per match, in textual order.\<close>

fun runPass :: "('st \<Rightarrow> string \<Rightarrow> 'g \<Rightarrow> 'st \<times> string) \<Rightarrow> 'st \<Rightarrow> 'g seg list \<Rightarrow> 'st \<times> string" where
  "runPass callback st [] = (st, [])"
| "runPass callback st (Lit c # segs) =
     (let (st', out) = runPass callback st segs in (st', c # out))"
| "runPass callback st (Match whole g # segs) =
     (let (st1, r) = callback st whole g;
          (st2, out) = runPass callback st1 segs
      in (st2, r @ out))"

definition starred :: "string \<Rightarrow> bool" where
  "starred whole = includes_str whole ''*''"

definition h1Open :: string where
  \<open>h1Open = ''<h1 class="text-3xl font-bold mt-8 mb-6 border-b pb-2">''\<close>

definition h2Open :: string where
  \<open>h2Open = ''<h2 class="text-2xl font-bold mt-6 mb-4 text-slate-800">''\<close>

definition h3Open :: string where
  \<open>h3Open = ''<h3 class="text-xl font-bold mt-4 mb-3 text-slate-700">''\<close>

definition chapterCallback :: "Counters \<Rightarrow> string \<Rightarrow> string \<Rightarrow> Counters \<times> string" where
  \<open>chapterCallback st whole title =
     (let st1 = (if \<not> starred whole then st\<lparr>chapterCount := chapterCount st + 1\<rparr> else st);
          st2 = st1\<lparr>sectionCount := 0\<rparr>
      in (st2,
          h1Open
            @ (if starred whole then [] else showNat (chapterCount st2) @ ''. '')
            @ title @ ''</h1>''))\<close>

definition sectionCallback :: "Counters \<Rightarrow> string \<Rightarrow> string \<Rightarrow> Counters \<times> string" where
  \<open>sectionCallback st whole title =
     (let st1 = (if \<not> starred whole then st\<lparr>sectionCount := sectionCount st + 1\<rparr> else st);
          st2 = st1\<lparr>subsectionCount := 0\<rparr>;
          num = (if chapterCount st2 > 0
                 then showNat (chapterCount st2) @ ''.'' @ showNat (sectionCount st2)
                 else showNat (sectionCount st2))
      in (st2,
          h2Open
            @ (if starred whole then [] else num @ '' '')
            @ title @ ''</h2>''))\<close>

definition subsectionCallback :: "Counters \<Rightarrow> string \<Rightarrow> string \<Rightarrow> Counters \<times> string" where
  \<open>subsectionCallback st whole title =
     (let st1 = (if \<not> starred whole then st\<lparr>subsectionCount := subsectionCount st + 1\<rparr> else st);
          num = (if chapterCount st1 > 0
                 then showNat (chapterCount st1) @ ''.'' @ showNat (sectionCount st1)
                        @ ''.'' @ showNat (subsectionCount st1)
                 else showNat (sectionCount st1) @ ''.'' @ showNat (subsectionCount st1))
      in (st1,
          h3Open
            @ (if starred whole then [] else num @ '' '')
            @ title @ ''</h3>''))\<close>

definition chapterPass :: "Counters \<Rightarrow> string \<Rightarrow> Counters \<times> string" where
  "chapterPass st processed =
     runPass chapterCallback st (scanMatches (matchHeading ''chapter'') processed)"

definition sectionPass :: "Counters \<Rightarrow> string \<Rightarrow> Counters \<times> string" where
  "sectionPass st processed =
     runPass sectionCallback st (scanMatches (matchHeading ''section'') processed)"

definition subsectionPass :: "Counters \<Rightarrow> string \<Rightarrow> Counters \<times> string" where
  "subsectionPass st processed =
     runPass subsectionCallback st (scanMatches (matchHeading ''subsection'') processed)"

text \<open>The three replacements run one after the other over the whole text, sharing the
  counters.\<close>

definition structureStage :: "string \<Rightarrow> string" where
  "structureStage processed =
     (let (st1, p1) = chapterPass initCounters processed;
          (st2, p2) = sectionPass st1 p1;
          (st3, p3) = subsectionPass st2 p2
      in p3)"

subsection \<open>Step 13: math\<close>

text \<open>
  \<^verbatim>\<open>katex.renderToString(math, options)\<close> is a library call, taken as a parameter: it
  receives the source and the display-mode flag and returns the markup, or \<open>None\<close> when
  it throws (each call stands in a \<^verbatim>\<open>try\<close> block whose handler returns the fallback).
\<close>

type_synonym katex = "string \<Rightarrow> bool \<Rightarrow> string option"

text \<open>\<^verbatim>\<open>/\$([^$]+)\$/g\<close>\<close>

definition matchInlineMath :: "string \<Rightarrow> (string \<times> string) option" where
  "matchInlineMath s =
     (case s of
        [] \<Rightarrow> None
      | c # t \<Rightarrow>
          if c \<noteq> CHR ''$'' then None
          else (let g = takeWhile (\<lambda>x. x \<noteq> CHR ''$'') t;
                    r = dropWhile (\<lambda>x. x \<noteq> CHR ''$'') t
                in if g = [] \<or> r = [] then None else Some (g, tl r)))"

text \<open>The lazy body \<^verbatim>\<open>([\s\S]*?)\<close> followed by a literal: the text up to the first
  occurrence of the literal, and the text after it.\<close>

fun lazyUntil :: "string \<Rightarrow> string \<Rightarrow> (string \<times> string) option" where
  "lazyUntil closing [] = (if closing = [] then Some ([], []) else None)"
| "lazyUntil closing (c # cs) =
     (if startsWith (c # cs) closing then Some ([], drop (length closing) (c # cs))
      else (case lazyUntil closing cs of
          None \<Rightarrow> None
        | Some (g, rest) \<Rightarrow> Some (c # g, rest)))"

text \<open>\<^verbatim>\<open>/\$\$([\s\S]*?)\$\$/g\<close>\<close>

definition matchDisplayMath :: "string \<Rightarrow> (string \<times> string) option" where
  "matchDisplayMath s = (if startsWith s ''$$'' then lazyUntil ''$$'' (drop 2 s) else None)"

text \<open>\<^verbatim>\<open>/\\\[([\s\S]*?)\\\]/g\<close>\<close>

definition matchBracketMath :: "string \<Rightarrow> (string \<times> string) option" where
  "matchBracketMath s =
     (if startsWith s (bs # ''['') then lazyUntil (bs # '']'') (drop 2 s) else None)"

definition displayOpen :: string where
  \<open>displayOpen = ''<div class="my-4 text-center">''\<close>

definition inlineFallbackOpen :: string where
  \<open>inlineFallbackOpen = ''<span class="font-mono text-xs bg-yellow-50">''\<close>

definition displayFallbackOpen :: string where
  \<open>displayFallbackOpen = ''<div class="font-mono text-xs bg-yellow-50 p-2">''\<close>

definition inlineMathCallback :: "katex \<Rightarrow> string \<Rightarrow> string \<Rightarrow> string" where
  \<open>inlineMathCallback katex whole math =
     (case katex math False of
        Some html \<Rightarrow> html
      | None \<Rightarrow> inlineFallbackOpen @ math @ ''</span>'')\<close>

definition displayMathCallback :: "katex \<Rightarrow> string \<Rightarrow> string \<Rightarrow> string" where
  \<open>displayMathCallback katex whole math =
     (case katex math True of
        Some html \<Rightarrow> displayOpen @ html @ ''</div>''
      | None \<Rightarrow> displayFallbackOpen @ math @ ''</div>'')\<close>

text \<open>The three replacements in the order of the source: the single-dollar spans, then
  the double-dollar spans, then the bracket spans.\<close>

definition mathStage :: "katex \<Rightarrow> string \<Rightarrow> string" where
  "mathStage katex processed =
     (let p1 = replaceAll matchInlineMath (inlineMathCallback katex) processed;
          p2 = replaceAll matchDisplayMath (displayMathCallback katex) p1;
          p3 = replaceAll matchBracketMath (displayMathCallback katex) p2
      in p3)"

section \<open>Notions used in the statements\<close>

text \<open>All nodes of a tree, the root first.\<close>

fun nodesOf :: "FileNode \<Rightarrow> FileNode list" where
  "nodesOf (FileNode nid nm ty co ch op) =
     FileNode nid nm ty co ch op
       # (case ch of None \<Rightarrow> [] | Some cs \<Rightarrow> concat (map nodesOf cs))"

text \<open>The asset an image is bound to: a source that is absent or empty binds nothing (the
  callback then emits the placeholder).\<close>

definition bound :: "string option \<Rightarrow> string option" where
  "bound src = (if truthy src then src else None)"

definition exactOrExtended :: "(string \<times> string) list \<Rightarrow> string \<Rightarrow> string option" where
  "exactOrExtended assets filename =
     (case find truthy [map_of assets filename, map_of assets (filename @ ''.png''),
                        map_of assets (filename @ ''.jpg''), map_of assets (filename @ ''.jpeg'')] of
        Some src \<Rightarrow> src
      | None \<Rightarrow> None)"

text \<open>The order of the claim: exact key, key with \<^verbatim>\<open>.png\<close>, \<^verbatim>\<open>.jpg\<close>, \<^verbatim>\<open>.jpeg\<close>
  appended, then the first key that contains the basename.\<close>

definition boundAsset_claimed :: "(string \<times> string) list \<Rightarrow> string \<Rightarrow> string option" where
  "boundAsset_claimed assets filename =
     (case exactOrExtended assets filename of
        Some src \<Rightarrow> Some src
      | None \<Rightarrow>
          (case filter (\<lambda>key. includes_str key filename) (objectKeys assets) of
             [] \<Rightarrow> None
           | key # keys \<Rightarrow> bound (map_of assets key)))"

text \<open>The same, with the last key that contains the basename.\<close>

definition boundAsset_amended :: "(string \<times> string) list \<Rightarrow> string \<Rightarrow> string option" where
  "boundAsset_amended assets filename =
     (case exactOrExtended assets filename of
        Some src \<Rightarrow> Some src
      | None \<Rightarrow>
          (case filter (\<lambda>key. includes_str key filename) (objectKeys assets) of
             [] \<Rightarrow> None
           | key # keys \<Rightarrow> bound (map_of assets (last (key # keys)))))"

text \<open>The file names that a call tree mentions: expanded, flagged as a loop, or missing.\<close>

fun namesOf :: "itree \<Rightarrow> string list" where
  "namesOf (TChar c) = []"
| "namesOf (TLoop filename) = [filename]"
| "namesOf (TMissing filename) = [filename]"
| "namesOf (TIncluded filename ts) = filename # concat (map namesOf ts)"

section \<open>Example inputs\<close>

text \<open>Two files that include each other, \<^verbatim>\<open>A.tex\<close> being the entry file.\<close>

definition cycleA :: string where
  "cycleA = ''a '' @ bs # ''input{B} z''"

definition cycleB :: string where
  "cycleB = ''b '' @ bs # ''include{sub/A.tex} y''"

definition cycleMap :: fileMap where
  "cycleMap = [(''A.tex'', FileNode ''1'' ''A.tex'' File (Some cycleA) None None),
               (''B.tex'', FileNode ''2'' ''B.tex'' File (Some cycleB) None None)]"

text \<open>The same, with \<^verbatim>\<open>B.tex\<close> including \<^verbatim>\<open>A.tex\<close> twice.\<close>

definition twiceB :: string where
  "twiceB = bs # ''input{A}'' @ bs # ''input{A}''"

definition twiceMap :: fileMap where
  "twiceMap = [(''A.tex'', FileNode ''1'' ''A.tex'' File (Some (bs # ''input{B}'')) None None),
               (''B.tex'', FileNode ''2'' ''B.tex'' File (Some twiceB) None None)]"

text \<open>\<^verbatim>\<open>A\<close> includes \<^verbatim>\<open>B\<close> and \<^verbatim>\<open>C\<close>, which both include \<^verbatim>\<open>D\<close>.\<close>

definition diamondA :: string where
  "diamondA = bs # ''input{B}'' @ '' | '' @ bs # ''input{C}''"

text \<open>
  The files of the diamond: \<^verbatim>\<open>B\<close> includes \<^verbatim>\<open>D\<close> and a leaf \<^verbatim>\<open>E\<close>, \<^verbatim>\<open>C\<close> includes
  \<^verbatim>\<open>D\<close>, \<^verbatim>\<open>D\<close> includes the leaf \<^verbatim>\<open>E\<close>.  The file map takes the contents of \<^verbatim>\<open>B\<close>
  and of \<^verbatim>\<open>D\<close> as parameters.
\<close>

definition diamondB :: string where
  "diamondB = ''b['' @ bs # ''input{D}'' @ bs # ''input{E}]''"

definition diamondC :: string where
  "diamondC = ''c['' @ bs # ''include{D}]''"

definition diamondD :: string where
  "diamondD = ''d<'' @ bs # ''input{E}>''"

definition diamondMap :: "string \<Rightarrow> string \<Rightarrow> fileMap" where
  "diamondMap b d =
     [(''B.tex'', FileNode ''2'' ''B.tex'' File (Some b) None None),
      (''C.tex'', FileNode ''3'' ''C.tex'' File (Some diamondC) None None),
      (''D.tex'', FileNode ''4'' ''D.tex'' File (Some d) None None),
      (''E.tex'', FileNode ''5'' ''E.tex'' File (Some ''ee'') None None)]"

text \<open>A file map whose only file has the empty string as content.\<close>

definition emptyFileMap :: fileMap where
  "emptyFileMap = [(''e.tex'', FileNode ''7'' ''e.tex'' File (Some []) None None)]"

text \<open>An entry file that includes itself.\<close>

definition selfMap :: fileMap where
  "selfMap = [(''main.tex'', FileNode ''1'' ''main.tex'' File (Some (''x'' @ bs # ''input{main}'')) None None)]"

text \<open>A project whose root folder is empty, and a state left by an earlier compile.\<close>

definition emptyProject :: Project where
  "emptyProject =
     \<lparr>project_id = ''p1'', project_name = ''Empty'',
      root = FileNode ''root'' ''root'' Folder None (Some []) None,
      lastModified = 0, owner = ''user''\<rparr>"

definition staleState :: AppState where
  "staleState = \<lparr>compiledContent = ''old text'', previewAssets = [], logs = [], isCompiling = True\<rparr>"

text \<open>Two assets whose keys both contain the basename \<^verbatim>\<open>fig\<close>.\<close>

definition twoFigures :: "(string \<times> string) list" where
  "twoFigures = [(''a_fig.png'', ''data:A''), (''b_fig.png'', ''data:B'')]"

text \<open>A text with a numbered chapter, starred headings of the three levels and a numbered
  subsection, and the texts after the chapter and the section replacements.\<close>

definition structDoc :: string where
  "structDoc = bs # ''chapter{A}'' @ bs # ''chapter*{P}'' @ bs # ''section*{S}''
                 @ bs # ''subsection*{U}'' @ bs # ''subsection{V}''"

definition structP1 :: string where
  "structP1 = h1Open @ ''1. A</h1>'' @ h1Open @ ''P</h1>'' @ bs # ''section*{S}''
                 @ bs # ''subsection*{U}'' @ bs # ''subsection{V}''"

definition structP2 :: string where
  "structP2 = h1Open @ ''1. A</h1>'' @ h1Open @ ''P</h1>'' @ h2Open @ ''S</h2>''
                 @ bs # ''subsection*{U}'' @ bs # ''subsection{V}''"

definition oneChapter :: Counters where
  "oneChapter = \<lparr>chapterCount = 1, sectionCount = 0, subsectionCount = 0\<rparr>"

text \<open>A stand-in for the typesetting call that marks the mode it was called in.\<close>

definition katexStub :: katex where
  "katexStub math displayMode = Some ((if displayMode then ''<display>'' else ''<inline>'') @ math)"

section \<open>Facts about the file map\<close>

lemma findByName_in_fileNames:
  "findByName fileMap filename = Some f \<Longrightarrow> filename \<in> fileNames fileMap"
  unfolding findByName_def fileNames_def
  by (auto simp: find_Some_iff)

lemma card_unprocessed_less:
  assumes "filename \<in> fileNames fileMap" and "filename \<notin> processed"
  shows "card (fileNames fileMap - insert filename processed) < card (fileNames fileMap - processed)"
proof -
  have fin: "finite (fileNames fileMap - processed)"
    by (simp add: fileNames_def)
  have "fileNames fileMap - insert filename processed \<subset> fileNames fileMap - processed"
    using assms by auto
  then show ?thesis
    using fin by (rule psubset_card_mono[rotated])
qed

section \<open>Facts about the scan\<close>

lemma startsWith_iff: "startsWith s p \<longleftrightarrow> (\<exists>t. s = p @ t)"
  by (induction s p rule: startsWith.induct) auto

lemma braceGroup_Some_iff:
  "braceGroup s = Some (g, r) \<longleftrightarrow> s = CHR ''{'' # g @ CHR ''}'' # r \<and> g \<noteq> [] \<and> CHR ''}'' \<notin> set g"
proof
  assume h: "braceGroup s = Some (g, r)"
  then obtain t where s: "s = CHR ''{'' # t"
    by (auto simp: braceGroup_def split: list.splits if_splits)
  let ?g = "takeWhile (\<lambda>x. x \<noteq> CHR ''}'') t" and ?r = "dropWhile (\<lambda>x. x \<noteq> CHR ''}'') t"
  from h s have g: "g = ?g" "?g \<noteq> []" "?r \<noteq> []" "r = tl ?r"
    by (auto simp: braceGroup_def Let_def split: if_splits)
  have "hd ?r = CHR ''}''"
    using g(3) hd_dropWhile[of "\<lambda>x. x \<noteq> CHR ''}''" t] by auto
  then have "?r = CHR ''}'' # r" using g(3,4) by (cases ?r) auto
  then have "t = g @ CHR ''}'' # r"
    using takeWhile_dropWhile_id[of "\<lambda>x. x \<noteq> CHR ''}''" t] g(1) by simp
  moreover have "CHR ''}'' \<notin> set g" using g(1) by (auto dest: set_takeWhileD)
  ultimately show "s = CHR ''{'' # g @ CHR ''}'' # r \<and> g \<noteq> [] \<and> CHR ''}'' \<notin> set g"
    using s g by simp
next
  assume "s = CHR ''{'' # g @ CHR ''}'' # r \<and> g \<noteq> [] \<and> CHR ''}'' \<notin> set g"
  then have s: "s = CHR ''{'' # g @ CHR ''}'' # r" and g: "g \<noteq> []" "\<And>x. x \<in> set g \<Longrightarrow> x \<noteq> CHR ''}''"
    by auto
  have "takeWhile (\<lambda>x. x \<noteq> CHR ''}'') (g @ CHR ''}'' # r) = g"
    using g(2) by (simp add: takeWhile_append2)
  moreover have "dropWhile (\<lambda>x. x \<noteq> CHR ''}'') (g @ CHR ''}'' # r) = CHR ''}'' # r"
    using g(2) by (simp add: dropWhile_append2)
  ultimately show "braceGroup s = Some (g, r)"
    using s g(1) by (simp add: braceGroup_def)
qed

text \<open>The matcher of the inclusion directive accepts exactly the texts that start with
  \<^verbatim>\<open>\input{path}\<close> or \<^verbatim>\<open>\include{path}\<close>, the path not empty and free of closing braces.\<close>

lemma matchImport_Some_iff:
  "matchImport s = Some (g, r) \<longleftrightarrow>
     g \<noteq> [] \<and> CHR ''}'' \<notin> set g \<and>
     (s = bs # ''input{'' @ g @ ''}'' @ r \<or> s = bs # ''include{'' @ g @ ''}'' @ r)"
  by (auto simp: matchImport_def braceGroup_Some_iff startsWith_iff)

lemma containsImport_iff:
  "containsImport content \<longleftrightarrow>
     (\<exists>pre path post. path \<noteq> [] \<and> CHR ''}'' \<notin> set path \<and>
        (content = pre @ bs # ''input{'' @ path @ ''}'' @ post
         \<or> content = pre @ bs # ''include{'' @ path @ ''}'' @ post))"
proof -
  have "containsImport content \<longleftrightarrow> (\<exists>pre s g r. content = pre @ s \<and> matchImport s = Some (g, r))"
  proof (induction content)
    case Nil
    then show ?case by (simp add: matchImport_def)
  next
    case (Cons c cs)
    show ?case
    proof
      assume "containsImport (c # cs)"
      then consider "matchImport (c # cs) \<noteq> None" | "containsImport cs" by auto
      then show "\<exists>pre s g r. c # cs = pre @ s \<and> matchImport s = Some (g, r)"
      proof cases
        case 1
        then show ?thesis by (metis append_Nil not_None_eq surj_pair)
      next
        case 2
        then obtain pre s g r where "cs = pre @ s" "matchImport s = Some (g, r)"
          using Cons.IH by blast
        then show ?thesis by (metis append_Cons)
      qed
    next
      assume "\<exists>pre s g r. c # cs = pre @ s \<and> matchImport s = Some (g, r)"
      then obtain pre s g r where h: "c # cs = pre @ s" "matchImport s = Some (g, r)" by blast
      show "containsImport (c # cs)"
      proof (cases pre)
        case Nil
        then show ?thesis using h by auto
      next
        case (Cons a pre')
        then have "cs = pre' @ s" using h by simp
        then have "containsImport cs" using Cons.IH h(2) by blast
        then show ?thesis by simp
      qed
    qed
  qed
  then show ?thesis
    by (simp add: matchImport_Some_iff) blast
qed

lemma scanMatches_no_import:
  "\<not> containsImport content \<Longrightarrow> scanMatches matchImport content = map Lit content"
  by (induction content) (auto split: option.splits)

lemma concat_map_Lit:
  "concat (map (\<lambda>s. case s of Lit c \<Rightarrow> [c] | Match whole g \<Rightarrow> f whole g) (map Lit cs)) = cs"
  by (induction cs) auto

section \<open>Import resolution: texts without a directive\<close>

text \<open>
  C8.  A text in which no position starts an inclusion directive (\<open>containsImport\<close>,
  characterised by \<open>containsImport_iff\<close>) is returned unchanged by
  \<open>resolveLatexImports\<close>, whatever the file map and the set of processed names.
\<close>

theorem resolve_without_directive_is_identity:
  assumes "\<not> containsImport content"
  shows "resolveLatexImports content fileMap processed = content"
proof -
  have "scanMatches matchImport content = map Lit content"
    using assms by (rule scanMatches_no_import)
  then show ?thesis
    unfolding resolveLatexImports.simps[of content] by (simp only: concat_map_Lit)
qed

theorem resolve_without_directive_is_identity_witness:
  "\<not> containsImport (''see '' @ bs # ''input{} and $x$'')
   \<and> resolveLatexImports (''see '' @ bs # ''input{} and $x$'')
        [(''a.tex'', FileNode ''1'' ''a.tex'' File (Some ''A'') None None)] {''a.tex''}
      = ''see '' @ bs # ''input{} and $x$''"
  using resolve_without_directive_is_identity
    [of "''see '' @ bs # ''input{} and $x$''"
        "[(''a.tex'', FileNode ''1'' ''a.tex'' File (Some ''A'') None None)]" "{''a.tex''}"]
  by (simp add: matchImport_def braceGroup_def)

section \<open>Import resolution: the call tree\<close>

lemma resolveTree_eq:
  "resolveTree content fileMap processed = map (expandSeg fileMap processed) (scanMatches matchImport content)"
  unfolding resolveTree.simps[of content]
  by (rule map_cong) (auto simp: expandSeg_def expandImport_def Let_def split: seg.splits)

lemma resolveLatexImports_eq:
  "resolveLatexImports content fileMap processed =
     concat (map (expandText fileMap processed) (scanMatches matchImport content))"
  unfolding resolveLatexImports.simps[of content]
  by (rule arg_cong[where f = concat], rule map_cong) (auto simp: expandText_def expandImportText_def Let_def split: seg.splits)

lemma render_resolveTree:
  "concat (map render (resolveTree content fileMap processed)) = resolveLatexImports content fileMap processed"
proof (induction "card (fileNames fileMap - processed)" arbitrary: content processed rule: less_induct)
  case less
  have "render (expandSeg fileMap processed s) = expandText fileMap processed s" for s
  proof (cases s)
    case (Lit c)
    then show ?thesis by (simp add: expandSeg_def expandText_def)
  next
    case (Match whole importPath)
    let ?n = "importFilename importPath"
    show ?thesis
    proof (cases "?n \<notin> processed \<and> (\<exists>f. findByName fileMap ?n = Some f \<and> truthy (node_content f))")
      case True
      then obtain f where f: "?n \<notin> processed" "findByName fileMap ?n = Some f" "truthy (node_content f)"
        by blast
      have "card (fileNames fileMap - insert ?n processed) < card (fileNames fileMap - processed)"
        using f by (intro card_unprocessed_less findByName_in_fileNames)
      from less[OF this] show ?thesis
        using f Match by (simp add: expandSeg_def expandText_def expandImport_def expandImportText_def)
    next
      case False
      then show ?thesis
        using Match by (auto simp: expandSeg_def expandText_def expandImport_def expandImportText_def split: option.splits)
    qed
  qed
  then show ?case
    by (simp add: resolveTree_eq resolveLatexImports_eq comp_def)
qed

lemma fold_max_le: "fold max xs (a::nat) \<le> b \<longleftrightarrow> a \<le> b \<and> (\<forall>x\<in>set xs. x \<le> b)"
  by (induction xs arbitrary: a) auto

lemma recursionDepth_bound:
  "recursionDepth (resolveTree content fileMap processed) \<le> card (fileNames fileMap - processed)"
proof (induction "card (fileNames fileMap - processed)" arbitrary: content processed rule: less_induct)
  case less
  have "depthOf (expandSeg fileMap processed s) \<le> card (fileNames fileMap - processed)" for s
  proof (cases s)
    case (Lit c)
    then show ?thesis by (simp add: expandSeg_def)
  next
    case (Match whole importPath)
    let ?n = "importFilename importPath"
    show ?thesis
    proof (cases "?n \<notin> processed \<and> (\<exists>f. findByName fileMap ?n = Some f \<and> truthy (node_content f))")
      case True
      then obtain f where f: "?n \<notin> processed" "findByName fileMap ?n = Some f" "truthy (node_content f)"
        by blast
      have lt: "card (fileNames fileMap - insert ?n processed) < card (fileNames fileMap - processed)"
        using f by (intro card_unprocessed_less findByName_in_fileNames)
      from less[OF this, of "the (node_content f)"] lt show ?thesis
        using f Match by (simp add: expandSeg_def expandImport_def recursionDepth_def)
    next
      case False
      then show ?thesis
        using Match by (auto simp: expandSeg_def expandImport_def split: option.splits)
    qed
  qed
  then show ?case
    by (simp add: resolveTree_eq recursionDepth_def fold_max_le)
qed

lemma concat_map_expandSeg:
  assumes "\<And>c. h (TChar c) = []"
  shows "concat (map h (map (expandSeg fileMap processed) segs))
         = concat (map (\<lambda>n. h (expandImport fileMap processed n)) (map importFilename (importPathsOf segs)))"
  by (induction segs rule: importPathsOf.induct) (simp_all add: expandSeg_def assms)

lemma loopsOf_resolveTree:
  "concat (map loopsOf (resolveTree content fileMap processed))
   = concat (map (\<lambda>n. loopsOf (expandImport fileMap processed n)) (importedFiles content))"
  unfolding resolveTree_eq importedFiles_def by (rule concat_map_expandSeg) simp

lemma expansionsOf_resolveTree:
  "concat (map expansionsOf (resolveTree content fileMap processed))
   = concat (map (\<lambda>n. expansionsOf (expandImport fileMap processed n)) (importedFiles content))"
  unfolding resolveTree_eq importedFiles_def by (rule concat_map_expandSeg) simp

lemma fold_max_expandSeg:
  "fold max (map depthOf (map (expandSeg fileMap processed) segs)) a
   = fold max (map (\<lambda>n. depthOf (expandImport fileMap processed n)) (map importFilename (importPathsOf segs))) a"
  by (induction segs arbitrary: a rule: importPathsOf.induct) (simp_all add: expandSeg_def)

lemma recursionDepth_resolveTree:
  "recursionDepth (resolveTree content fileMap processed)
   = fold max (map (\<lambda>n. depthOf (expandImport fileMap processed n)) (importedFiles content)) 0"
  unfolding resolveTree_eq importedFiles_def recursionDepth_def by (rule fold_max_expandSeg)

lemma expandImport_included:
  assumes "findByName fileMap n = Some f" "node_content f = Some c" "c \<noteq> []" "n \<notin> processed"
  shows "expandImport fileMap processed n = TIncluded n (resolveTree c fileMap (insert n processed))"
  using assms by (simp add: expandImport_def)

lemma expandImport_loop: "n \<in> processed \<Longrightarrow> expandImport fileMap processed n = TLoop n"
  by (simp add: expandImport_def)

lemma importPathsOf_Nil: "importPathsOf (scanMatches m s) = [] \<Longrightarrow> scanMatches m s = map Lit s"
  by (induction m s rule: scanMatches.induct) (auto split: option.splits if_splits)

lemma resolveTree_no_imports:
  "importedFiles content = [] \<Longrightarrow> resolveTree content fileMap processed = map TChar content"
proof -
  assume "importedFiles content = []"
  then have "importPathsOf (scanMatches matchImport content) = []"
    by (simp add: importedFiles_def)
  then have "scanMatches matchImport content = map Lit content"
    by (rule importPathsOf_Nil)
  then show ?thesis
    by (simp add: resolveTree_eq expandSeg_def)
qed

lemma findByName_removeNamed:
  "findByName (removeNamed n fileMap) n' = (if n' = n then None else findByName fileMap n')"
  by (induction fileMap) (auto simp: findByName_def removeNamed_def objectValues_def)

lemma scanMatches_single_input:
  assumes "path \<noteq> []" "CHR ''}'' \<notin> set path"
  shows "scanMatches matchImport (bs # ''input{'' @ path @ ''}'') = [Match (bs # ''input{'' @ path @ ''}'') path]"
proof -
  have "matchImport (bs # ''input{'' @ path @ ''}'') = Some (path, [])"
    using assms by (simp add: matchImport_Some_iff)
  then show ?thesis by simp
qed

lemma resolve_eq_removeNamed:
  assumes "findByName fileMap filename = Some f" "\<not> truthy (node_content f)"
  shows "resolveLatexImports content fileMap processed
         = resolveLatexImports content (removeNamed filename fileMap) processed"
proof (induction "card (fileNames fileMap - processed)" arbitrary: content processed rule: less_induct)
  case less
  have "expandImportText fileMap processed n = expandImportText (removeNamed filename fileMap) processed n" for n
  proof (cases "n \<notin> processed \<and> n \<noteq> filename \<and> (\<exists>g. findByName fileMap n = Some g \<and> truthy (node_content g))")
    case True
    then obtain g where g: "n \<notin> processed" "n \<noteq> filename" "findByName fileMap n = Some g" "truthy (node_content g)"
      by blast
    have "card (fileNames fileMap - insert n processed) < card (fileNames fileMap - processed)"
      using g by (intro card_unprocessed_less findByName_in_fileNames)
    from less[OF this] show ?thesis
      using g by (simp add: expandImportText_def findByName_removeNamed)
  next
    case False
    then show ?thesis
      using assms by (auto simp: expandImportText_def findByName_removeNamed split: option.splits)
  qed
  then have "expandText fileMap processed = expandText (removeNamed filename fileMap) processed"
    by (auto simp: fun_eq_iff expandText_def split: seg.splits)
  then show ?case
    by (simp add: resolveLatexImports_eq)
qed

section \<open>Import resolution: cycles\<close>

lemmas import_eval =
  matchImport_def braceGroup_def importFilename_def popOrPath_def lastSegment_def endsWith_def
  findByName_def objectValues_def importedFiles_def Let_def

text \<open>
  C1, as amended.  The resolution is a total function (its termination is proved with the
  number of file names not yet processed as measure), and for every file map, text and
  processed set the depth of the nested calls is at most the number of file names not yet
  processed.  When the content of A holds exactly one inclusion directive, naming B, and
  the content of B exactly one, naming A (two different files, both with content),
  resolving the content of A from the empty set expands B, then A once more, and then
  emits exactly one loop marker, naming B; the depth is 2, and the text returned is the
  rendering of that tree.  In general a directive whose file name is already processed
  becomes the loop marker alone, with nothing expanded below it, and every position of
  a text is replaced on its own, whatever the directives before it became.
\<close>

theorem two_file_cycle:
  assumes A: "findByName fileMap A = Some fA" "node_content fA = Some cA" "cA \<noteq> []"
    and B: "findByName fileMap B = Some fB" "node_content fB = Some cB" "cB \<noteq> []"
    and AB: "A \<noteq> B"
    and iA: "importedFiles cA = [B]"
    and iB: "importedFiles cB = [A]"
  shows "concat (map loopsOf (resolveTree cA fileMap {})) = [B]
       \<and> map fst (concat (map expansionsOf (resolveTree cA fileMap {}))) = [B, A]
       \<and> recursionDepth (resolveTree cA fileMap {}) = 2
       \<and> (\<forall>content processed.
            recursionDepth (resolveTree content fileMap processed) \<le> card (fileNames fileMap - processed))
       \<and> (\<forall>content processed i. i < length (scanMatches matchImport content) \<longrightarrow>
            resolveTree content fileMap processed ! i
              = expandSeg fileMap processed (scanMatches matchImport content ! i))
       \<and> (\<forall>processed filename. filename \<in> processed \<longrightarrow>
            expandImport fileMap processed filename = TLoop filename)
       \<and> concat (map render (resolveTree cA fileMap {})) = resolveLatexImports cA fileMap {}"
proof -
  have e1: "expandImport fileMap {} B = TIncluded B (resolveTree cB fileMap {B})"
    using B by (simp add: expandImport_included)
  have e2: "expandImport fileMap {B} A = TIncluded A (resolveTree cA fileMap {A, B})"
    using A AB by (simp add: expandImport_included)
  have e3: "expandImport fileMap {A, B} B = TLoop B"
    by (simp add: expandImport_loop)
  have "concat (map loopsOf (resolveTree cA fileMap {})) = [B]"
    by (simp add: loopsOf_resolveTree iA iB e1 e2 e3)
  moreover have "map fst (concat (map expansionsOf (resolveTree cA fileMap {}))) = [B, A]"
    by (simp add: expansionsOf_resolveTree iA iB e1 e2 e3)
  moreover have "recursionDepth (resolveTree cA fileMap {}) = 2"
    by (simp add: recursionDepth_resolveTree iA iB e1 e2 e3 recursionDepth_def[symmetric])
  moreover have "resolveTree content fileMap processed ! i
      = expandSeg fileMap processed (scanMatches matchImport content ! i)"
    if "i < length (scanMatches matchImport content)" for content processed i
    using that by (simp add: resolveTree_eq)
  ultimately show ?thesis
    by (simp add: recursionDepth_bound render_resolveTree expandImport_loop)
qed

theorem two_file_cycle_witness:
  "importedFiles cycleA = [''B.tex''] \<and> importedFiles cycleB = [''A.tex'']
   \<and> concat (map loopsOf (resolveTree cycleA cycleMap {})) = [''B.tex'']
   \<and> map fst (concat (map expansionsOf (resolveTree cycleA cycleMap {}))) = [''B.tex'', ''A.tex'']
   \<and> recursionDepth (resolveTree cycleA cycleMap {}) = 2
   \<and> resolveLatexImports cycleA cycleMap {}
       = ''a '' @ beginMarker ''B.tex'' @ ''b '' @ beginMarker ''A.tex'' @ ''a ''
          @ loopMarker ''B.tex'' @ '' z'' @ endMarker ''A.tex'' @ '' y'' @ endMarker ''B.tex'' @ '' z''"
proof -
  have fA: "findByName cycleMap ''A.tex'' = Some (FileNode ''1'' ''A.tex'' File (Some cycleA) None None)"
    and fB: "findByName cycleMap ''B.tex'' = Some (FileNode ''2'' ''B.tex'' File (Some cycleB) None None)"
    by (simp_all add: cycleMap_def findByName_def objectValues_def)
  have iA: "importedFiles cycleA = [''B.tex'']"
    by (simp add: cycleA_def import_eval)
  have iB: "importedFiles cycleB = [''A.tex'']"
    by (simp add: cycleB_def import_eval)
  have out: "resolveLatexImports cycleA cycleMap {}
       = ''a '' @ beginMarker ''B.tex'' @ ''b '' @ beginMarker ''A.tex'' @ ''a ''
          @ loopMarker ''B.tex'' @ '' z'' @ endMarker ''A.tex'' @ '' y'' @ endMarker ''B.tex'' @ '' z''"
    by (simp add: resolveLatexImports.simps cycleA_def cycleB_def cycleMap_def import_eval)
  show ?thesis
    using two_file_cycle[OF fA _ _ fB _ _ _ iA iB] iA iB out
    by (simp add: cycleA_def cycleB_def)
qed

text \<open>
  The claim as stated fails when a file holds the directive more than once: with
  \<^verbatim>\<open>A.tex\<close> including \<^verbatim>\<open>B.tex\<close> and \<^verbatim>\<open>B.tex\<close> including \<^verbatim>\<open>A.tex\<close> twice,
  resolving the content of \<^verbatim>\<open>A.tex\<close> emits two loop markers.
\<close>

theorem cycle_marker_count_counterexample:
  "''B.tex'' \<in> set (importedFiles (bs # ''input{B}''))
   \<and> ''A.tex'' \<in> set (importedFiles twiceB)
   \<and> concat (map loopsOf (resolveTree (bs # ''input{B}'') twiceMap {})) = [''B.tex'', ''B.tex'']
   \<and> resolveLatexImports (bs # ''input{B}'') twiceMap {}
       = beginMarker ''B.tex''
          @ beginMarker ''A.tex'' @ loopMarker ''B.tex'' @ endMarker ''A.tex''
          @ beginMarker ''A.tex'' @ loopMarker ''B.tex'' @ endMarker ''A.tex''
          @ endMarker ''B.tex''"
  by (simp add: resolveLatexImports.simps resolveTree.simps twiceB_def twiceMap_def import_eval)

section \<open>Import resolution: diamonds\<close>

text \<open>
  A name that the call tree does not mention can be added to the processed set without
  changing the tree; a name that is expanded was not in the processed set; and when the
  tree mentions a file with content that is not in the processed set, while that file
  names one that is, the tree holds a loop marker.
\<close>

lemma name_in_expandImport: "n \<in> set (namesOf (expandImport fileMap processed n))"
  by (auto simp: expandImport_def split: option.splits)

lemma resolveTree_insert_unmentioned:
  "x \<notin> set (concat (map namesOf (resolveTree content fileMap processed))) \<Longrightarrow>
   resolveTree content fileMap (insert x processed) = resolveTree content fileMap processed"
proof (induction "card (fileNames fileMap - processed)" arbitrary: content processed rule: less_induct)
  case less
  have "expandSeg fileMap (insert x processed) s = expandSeg fileMap processed s"
    if s: "s \<in> set (scanMatches matchImport content)" for s
  proof (cases s)
    case (Lit c)
    then show ?thesis by (simp add: expandSeg_def)
  next
    case (Match whole importPath)
    let ?n = "importFilename importPath"
    have un: "x \<notin> set (namesOf (expandImport fileMap processed ?n))"
      using less.prems s Match by (force simp: resolveTree_eq expandSeg_def)
    then have xn: "x \<noteq> ?n"
      using name_in_expandImport[of ?n fileMap processed] by auto
    show ?thesis
    proof (cases "?n \<notin> processed \<and> (\<exists>f. findByName fileMap ?n = Some f \<and> truthy (node_content f))")
      case True
      then obtain f where f: "?n \<notin> processed" "findByName fileMap ?n = Some f" "truthy (node_content f)"
        by blast
      have lt: "card (fileNames fileMap - insert ?n processed) < card (fileNames fileMap - processed)"
        using f by (intro card_unprocessed_less findByName_in_fileNames)
      have "x \<notin> set (concat (map namesOf (resolveTree (the (node_content f)) fileMap (insert ?n processed))))"
        using un f by (simp add: expandImport_def)
      from less.hyps[OF lt this]
      have "resolveTree (the (node_content f)) fileMap (insert ?n (insert x processed))
            = resolveTree (the (node_content f)) fileMap (insert ?n processed)"
        by (simp add: insert_commute)
      then show ?thesis
        using f xn Match by (simp add: expandSeg_def expandImport_def)
    next
      case False
      then show ?thesis
        using xn Match by (auto simp: expandSeg_def expandImport_def split: option.splits)
    qed
  qed
  then show ?case
    by (simp add: resolveTree_eq)
qed

lemma expansions_not_processed:
  "e \<in> set (concat (map expansionsOf (resolveTree content fileMap processed))) \<Longrightarrow> fst e \<notin> processed"
proof (induction "card (fileNames fileMap - processed)" arbitrary: content processed e rule: less_induct)
  case less
  from less.prems obtain s where s: "s \<in> set (scanMatches matchImport content)"
    and e: "e \<in> set (expansionsOf (expandSeg fileMap processed s))"
    by (auto simp: resolveTree_eq)
  show ?case
  proof (cases s)
    case (Lit c)
    then show ?thesis using e by (simp add: expandSeg_def)
  next
    case (Match whole importPath)
    let ?n = "importFilename importPath"
    show ?thesis
    proof (cases "?n \<notin> processed \<and> (\<exists>f. findByName fileMap ?n = Some f \<and> truthy (node_content f))")
      case True
      then obtain f where f: "?n \<notin> processed" "findByName fileMap ?n = Some f" "truthy (node_content f)"
        by blast
      have lt: "card (fileNames fileMap - insert ?n processed) < card (fileNames fileMap - processed)"
        using f by (intro card_unprocessed_less findByName_in_fileNames)
      from e Match f have "fst e = ?n \<or> e \<in> set (concat (map expansionsOf
            (resolveTree (the (node_content f)) fileMap (insert ?n processed))))"
        by (auto simp: expandSeg_def expandImport_def)
      then show ?thesis
      proof
        assume "fst e = ?n"
        then show ?thesis using f(1) by simp
      next
        assume "e \<in> set (concat (map expansionsOf
            (resolveTree (the (node_content f)) fileMap (insert ?n processed))))"
        from less.hyps[OF lt this] show ?thesis by simp
      qed
    next
      case False
      then show ?thesis
        using e Match by (auto simp: expandSeg_def expandImport_def split: option.splits if_splits)
    qed
  qed
qed

lemma mentioned_under_open_import:
  assumes "findByName fileMap x = Some f" "node_content f = Some cx" "cx \<noteq> []"
    and "y \<in> set (importedFiles cx)"
  shows "x \<in> set (concat (map namesOf (resolveTree content fileMap processed))) \<Longrightarrow>
         x \<notin> processed \<Longrightarrow> y \<in> processed \<Longrightarrow>
         concat (map loopsOf (resolveTree content fileMap processed)) \<noteq> []"
proof (induction "card (fileNames fileMap - processed)" arbitrary: content processed rule: less_induct)
  case less
  from less.prems(1) obtain s where s: "s \<in> set (scanMatches matchImport content)"
    and x: "x \<in> set (namesOf (expandSeg fileMap processed s))"
    by (auto simp: resolveTree_eq)
  have "loopsOf (expandSeg fileMap processed s) \<noteq> []"
  proof (cases s)
    case (Lit c)
    then show ?thesis using x by (simp add: expandSeg_def)
  next
    case (Match whole importPath)
    let ?n = "importFilename importPath"
    show ?thesis
    proof (cases "?n \<notin> processed \<and> (\<exists>g. findByName fileMap ?n = Some g \<and> truthy (node_content g))")
      case True
      then obtain g where g: "?n \<notin> processed" "findByName fileMap ?n = Some g" "truthy (node_content g)"
        by blast
      let ?sub = "resolveTree (the (node_content g)) fileMap (insert ?n processed)"
      have e: "expandSeg fileMap processed s = TIncluded ?n ?sub"
        using g Match by (simp add: expandSeg_def expandImport_def)
      have lt: "card (fileNames fileMap - insert ?n processed) < card (fileNames fileMap - processed)"
        using g by (intro card_unprocessed_less findByName_in_fileNames)
      have "concat (map loopsOf ?sub) \<noteq> []"
      proof (cases "x = ?n")
        case True
        then have sub: "?sub = resolveTree cx fileMap (insert x processed)"
          using g assms by simp
        have "y \<in> insert x processed" using less.prems(3) by simp
        then have "loopsOf (expandImport fileMap (insert x processed) y) = [y]"
          by (simp add: expandImport_loop)
        then show ?thesis
          unfolding sub loopsOf_resolveTree using assms(4) by force
      next
        case False
        then have "x \<in> set (concat (map namesOf ?sub))" "x \<notin> insert ?n processed"
          using x e less.prems(2) by auto
        from less.hyps[OF lt this] less.prems(3) show ?thesis by simp
      qed
      then show ?thesis using e by simp
    next
      case False
      then show ?thesis
        using x Match less.prems(2) assms(1,2,3)
        by (auto simp: expandSeg_def expandImport_def split: option.splits if_splits)
    qed
  qed
  then show ?case
    using s by (auto simp: resolveTree_eq)
qed

lemma concat_map_single:
  "concat (map (\<lambda>n. if n = d then [x] else []) ns) = replicate (count_list ns d) x"
  by (induction ns) auto

lemma concat_map_either:
  "b \<noteq> c \<Longrightarrow> concat (map (\<lambda>n. if n = b \<or> n = c then [x] else []) ns)
     = replicate (count_list ns b + count_list ns c) x"
  by (induction ns) auto

lemma filter_concat_map:
  "filter P (concat (map f ns)) = concat (map (\<lambda>n. filter P (f n)) ns)"
  by (induction ns) auto

lemma concat_map_cong: "(\<And>n. n \<in> set ns \<Longrightarrow> f n = g n) \<Longrightarrow> concat (map f ns) = concat (map g ns)"
  by (induction ns) auto

lemma concat_map_Nil: "(\<And>n. n \<in> set ns \<Longrightarrow> f n = []) \<Longrightarrow> concat (map f ns) = []"
  by (induction ns) auto

text \<open>
  C2, as amended.  Let B, C and D be files with content, B different from C.  When the
  content of A names B in exactly one inclusion directive and C in exactly one, the
  contents of B and of C name D in exactly one directive each, no other directive of A,
  of B or of C expands to a loop marker or to an expansion of D, and resolving the content
  of D on its own emits no loop marker, then resolving the content of A from the empty set
  emits no loop marker and expands D exactly twice, once below B and once below C, each
  time to the same tree, the one that resolving the content of D on its own gives.  The
  second expansion is not flagged because the callback adds the name to a copy of the
  processed set (\<open>insert filename processed\<close> is passed down, \<open>processed\<close> itself stays as
  it was for the next directive).
\<close>

theorem diamond_include:
  assumes B: "findByName fileMap B = Some fB" "node_content fB = Some cB" "cB \<noteq> []"
    and C: "findByName fileMap C = Some fC" "node_content fC = Some cC" "cC \<noteq> []"
    and D: "findByName fileMap D = Some fD" "node_content fD = Some cD" "cD \<noteq> []"
    and BC: "B \<noteq> C"
    and iA: "count_list (importedFiles cA) B = 1" "count_list (importedFiles cA) C = 1"
    and iB: "count_list (importedFiles cB) D = 1"
    and iC: "count_list (importedFiles cC) D = 1"
    and oA: "\<forall>n \<in> set (importedFiles cA). n \<noteq> B \<and> n \<noteq> C \<longrightarrow>
               loopsOf (expandImport fileMap {} n) = []
               \<and> D \<notin> fst ` set (expansionsOf (expandImport fileMap {} n))"
    and oB: "\<forall>n \<in> set (importedFiles cB). n \<noteq> D \<longrightarrow>
               loopsOf (expandImport fileMap {B} n) = []
               \<and> D \<notin> fst ` set (expansionsOf (expandImport fileMap {B} n))"
    and oC: "\<forall>n \<in> set (importedFiles cC). n \<noteq> D \<longrightarrow>
               loopsOf (expandImport fileMap {C} n) = []
               \<and> D \<notin> fst ` set (expansionsOf (expandImport fileMap {C} n))"
    and noLoop: "concat (map loopsOf (resolveTree cD fileMap {D})) = []"
  shows "concat (map loopsOf (resolveTree cA fileMap {})) = []
       \<and> filter (\<lambda>e. fst e = D) (concat (map expansionsOf (resolveTree cA fileMap {})))
           = [(D, resolveTree cD fileMap {D}), (D, resolveTree cD fileMap {D})]
       \<and> concat (map render (resolveTree cD fileMap {D})) = resolveLatexImports cD fileMap {D}
       \<and> concat (map render (resolveTree cA fileMap {})) = resolveLatexImports cA fileMap {}"
proof -
  let ?TD = "resolveTree cD fileMap {D}"
  let ?isD = "\<lambda>e :: string \<times> itree list. fst e = D"
  have inB: "D \<in> set (importedFiles cB)"
    using iB count_list_0_iff[of "importedFiles cB" D] by simp
  have inC: "D \<in> set (importedFiles cC)"
    using iC count_list_0_iff[of "importedFiles cC" D] by simp
  have self: "X \<noteq> D" if "findByName fileMap X = Some fX" "node_content fX = Some cX"
    "D \<in> set (importedFiles cX)" for X fX cX
  proof
    assume "X = D"
    then have "D \<in> set (importedFiles cD)" using that D by simp
    moreover have "loopsOf (expandImport fileMap {D} D) = [D]"
      by (simp add: expandImport_loop)
    ultimately have "concat (map loopsOf ?TD) \<noteq> []"
      unfolding loopsOf_resolveTree by force
    then show False using noLoop by simp
  qed
  have BD: "B \<noteq> D" using self[OF B(1,2) inB] .
  have CD: "C \<noteq> D" using self[OF C(1,2) inC] .
  have noB: "B \<notin> set (concat (map namesOf ?TD))"
    using mentioned_under_open_import[OF B inB, where content = cD and processed = "{D}"] BD noLoop by auto
  have noC: "C \<notin> set (concat (map namesOf ?TD))"
    using mentioned_under_open_import[OF C inC, where content = cD and processed = "{D}"] CD noLoop by auto
  have eB: "expandImport fileMap {} B = TIncluded B (resolveTree cB fileMap {B})"
    using B by (simp add: expandImport_included)
  have eC: "expandImport fileMap {} C = TIncluded C (resolveTree cC fileMap {C})"
    using C by (simp add: expandImport_included)
  have tB: "resolveTree cD fileMap {D, B} = ?TD"
    using resolveTree_insert_unmentioned[OF noB] by (simp add: insert_commute)
  have tC: "resolveTree cD fileMap {D, C} = ?TD"
    using resolveTree_insert_unmentioned[OF noC] by (simp add: insert_commute)
  have eDB: "expandImport fileMap {B} D = TIncluded D ?TD"
    using D BD tB by (simp add: expandImport_included)
  have eDC: "expandImport fileMap {C} D = TIncluded D ?TD"
    using D CD tC by (simp add: expandImport_included)
  have noD: "filter ?isD (concat (map expansionsOf ?TD)) = []"
    using expansions_not_processed[of _ cD fileMap "{D}"] by (auto simp: filter_empty_conv)
  have none: "filter ?isD xs = []" if "D \<notin> fst ` set xs" for xs
    using that by (auto simp: filter_empty_conv)
  have lB: "concat (map loopsOf (resolveTree cB fileMap {B})) = []"
    unfolding loopsOf_resolveTree
  proof (rule concat_map_Nil)
    fix n assume "n \<in> set (importedFiles cB)"
    then show "loopsOf (expandImport fileMap {B} n) = []"
      using oB noLoop by (cases "n = D") (simp_all add: eDB)
  qed
  have lC: "concat (map loopsOf (resolveTree cC fileMap {C})) = []"
    unfolding loopsOf_resolveTree
  proof (rule concat_map_Nil)
    fix n assume "n \<in> set (importedFiles cC)"
    then show "loopsOf (expandImport fileMap {C} n) = []"
      using oC noLoop by (cases "n = D") (simp_all add: eDC)
  qed
  have xB: "filter ?isD (concat (map expansionsOf (resolveTree cB fileMap {B}))) = [(D, ?TD)]"
  proof -
    have "filter ?isD (concat (map expansionsOf (resolveTree cB fileMap {B})))
          = concat (map (\<lambda>n. if n = D then [(D, ?TD)] else []) (importedFiles cB))"
      unfolding expansionsOf_resolveTree filter_concat_map
    proof (rule concat_map_cong)
      fix n assume "n \<in> set (importedFiles cB)"
      then show "filter ?isD (expansionsOf (expandImport fileMap {B} n)) = (if n = D then [(D, ?TD)] else [])"
        using oB noD none by (cases "n = D") (simp_all add: eDB)
    qed
    then show ?thesis by (simp add: concat_map_single iB)
  qed
  have xC: "filter ?isD (concat (map expansionsOf (resolveTree cC fileMap {C}))) = [(D, ?TD)]"
  proof -
    have "filter ?isD (concat (map expansionsOf (resolveTree cC fileMap {C})))
          = concat (map (\<lambda>n. if n = D then [(D, ?TD)] else []) (importedFiles cC))"
      unfolding expansionsOf_resolveTree filter_concat_map
    proof (rule concat_map_cong)
      fix n assume "n \<in> set (importedFiles cC)"
      then show "filter ?isD (expansionsOf (expandImport fileMap {C} n)) = (if n = D then [(D, ?TD)] else [])"
        using oC noD none by (cases "n = D") (simp_all add: eDC)
    qed
    then show ?thesis by (simp add: concat_map_single iC)
  qed
  have lA: "concat (map loopsOf (resolveTree cA fileMap {})) = []"
    unfolding loopsOf_resolveTree
  proof (rule concat_map_Nil)
    fix n assume "n \<in> set (importedFiles cA)"
    then show "loopsOf (expandImport fileMap {} n) = []"
      using oA lB lC by (cases "n = B \<or> n = C") (auto simp: eB eC)
  qed
  have xA: "filter ?isD (concat (map expansionsOf (resolveTree cA fileMap {}))) = [(D, ?TD), (D, ?TD)]"
  proof -
    have "filter ?isD (concat (map expansionsOf (resolveTree cA fileMap {})))
          = concat (map (\<lambda>n. if n = B \<or> n = C then [(D, ?TD)] else []) (importedFiles cA))"
      unfolding expansionsOf_resolveTree filter_concat_map
    proof (rule concat_map_cong)
      fix n assume "n \<in> set (importedFiles cA)"
      then show "filter ?isD (expansionsOf (expandImport fileMap {} n))
                 = (if n = B \<or> n = C then [(D, ?TD)] else [])"
        using oA xB xC BD CD none by (cases "n = B \<or> n = C") (auto simp: eB eC)
    qed
    then show ?thesis by (simp add: concat_map_either[OF BC] iA)
  qed
  show ?thesis
    using lA xA by (simp add: render_resolveTree)
qed

theorem diamond_include_witness:
  "count_list (importedFiles (diamondA @ bs # ''input{E}'')) ''B.tex'' = 1
   \<and> count_list (importedFiles (diamondA @ bs # ''input{E}'')) ''C.tex'' = 1
   \<and> importedFiles diamondB = [''D.tex'', ''E.tex'']
   \<and> importedFiles diamondC = [''D.tex'']
   \<and> concat (map loopsOf (resolveTree (diamondA @ bs # ''input{E}'') (diamondMap diamondB diamondD) {})) = []
   \<and> filter (\<lambda>e. fst e = ''D.tex'')
        (concat (map expansionsOf (resolveTree (diamondA @ bs # ''input{E}'') (diamondMap diamondB diamondD) {})))
       = [(''D.tex'', [TChar CHR ''d'', TChar CHR ''<'', TIncluded ''E.tex'' [TChar CHR ''e'', TChar CHR ''e''], TChar CHR ''>'']),
          (''D.tex'', [TChar CHR ''d'', TChar CHR ''<'', TIncluded ''E.tex'' [TChar CHR ''e'', TChar CHR ''e''], TChar CHR ''>''])]
   \<and> resolveLatexImports (diamondA @ bs # ''input{E}'') (diamondMap diamondB diamondD) {}
       = beginMarker ''B.tex'' @ ''b['' @ beginMarker ''D.tex'' @ ''d<'' @ beginMarker ''E.tex'' @ ''ee''
          @ endMarker ''E.tex'' @ ''>'' @ endMarker ''D.tex'' @ beginMarker ''E.tex'' @ ''ee''
          @ endMarker ''E.tex'' @ '']'' @ endMarker ''B.tex'' @ '' | ''
          @ beginMarker ''C.tex'' @ ''c['' @ beginMarker ''D.tex'' @ ''d<'' @ beginMarker ''E.tex'' @ ''ee''
          @ endMarker ''E.tex'' @ ''>'' @ endMarker ''D.tex'' @ '']'' @ endMarker ''C.tex''
          @ beginMarker ''E.tex'' @ ''ee'' @ endMarker ''E.tex''"
proof -
  let ?a = "diamondA @ bs # ''input{E}''"
  let ?m = "diamondMap diamondB diamondD"
  let ?tE = "TIncluded ''E.tex'' [TChar CHR ''e'', TChar CHR ''e'']"
  let ?tD = "[TChar CHR ''d'', TChar CHR ''<'', ?tE, TChar CHR ''>'']"
  have fB: "findByName ?m ''B.tex'' = Some (FileNode ''2'' ''B.tex'' File (Some diamondB) None None)"
    and fC: "findByName ?m ''C.tex'' = Some (FileNode ''3'' ''C.tex'' File (Some diamondC) None None)"
    and fD: "findByName ?m ''D.tex'' = Some (FileNode ''4'' ''D.tex'' File (Some diamondD) None None)"
    by (simp_all add: diamondMap_def findByName_def objectValues_def)
  have iA: "importedFiles ?a = [''B.tex'', ''C.tex'', ''E.tex'']"
    by (simp add: diamondA_def import_eval)
  have iB: "importedFiles diamondB = [''D.tex'', ''E.tex'']"
    by (simp add: diamondB_def import_eval)
  have iC: "importedFiles diamondC = [''D.tex'']"
    by (simp add: diamondC_def import_eval)
  have eE: "expandImport ?m P ''E.tex'' = ?tE" if "''E.tex'' \<notin> P" for P
    using that by (simp add: expandImport_def resolveTree.simps diamondMap_def import_eval)
  have tD: "resolveTree diamondD ?m {''D.tex''} = ?tD"
    by (simp add: resolveTree.simps diamondMap_def diamondD_def import_eval)
  have out: "resolveLatexImports ?a ?m {}
       = beginMarker ''B.tex'' @ ''b['' @ beginMarker ''D.tex'' @ ''d<'' @ beginMarker ''E.tex'' @ ''ee''
          @ endMarker ''E.tex'' @ ''>'' @ endMarker ''D.tex'' @ beginMarker ''E.tex'' @ ''ee''
          @ endMarker ''E.tex'' @ '']'' @ endMarker ''B.tex'' @ '' | ''
          @ beginMarker ''C.tex'' @ ''c['' @ beginMarker ''D.tex'' @ ''d<'' @ beginMarker ''E.tex'' @ ''ee''
          @ endMarker ''E.tex'' @ ''>'' @ endMarker ''D.tex'' @ '']'' @ endMarker ''C.tex''
          @ beginMarker ''E.tex'' @ ''ee'' @ endMarker ''E.tex''"
    by (simp add: resolveLatexImports.simps diamondA_def diamondB_def diamondC_def diamondD_def
        diamondMap_def import_eval)
  have th: "concat (map loopsOf (resolveTree ?a ?m {})) = []
       \<and> filter (\<lambda>e. fst e = ''D.tex'') (concat (map expansionsOf (resolveTree ?a ?m {})))
           = [(''D.tex'', resolveTree diamondD ?m {''D.tex''}), (''D.tex'', resolveTree diamondD ?m {''D.tex''})]
       \<and> concat (map render (resolveTree diamondD ?m {''D.tex''})) = resolveLatexImports diamondD ?m {''D.tex''}
       \<and> concat (map render (resolveTree ?a ?m {})) = resolveLatexImports ?a ?m {}"
  proof (rule diamond_include[OF fB _ _ fC _ _ fD])
    show "count_list (importedFiles ?a) ''B.tex'' = 1" "count_list (importedFiles ?a) ''C.tex'' = 1"
      unfolding iA by simp_all
    show "count_list (importedFiles diamondB) ''D.tex'' = 1" "count_list (importedFiles diamondC) ''D.tex'' = 1"
      unfolding iB iC by simp_all
    show "\<forall>n \<in> set (importedFiles ?a). n \<noteq> ''B.tex'' \<and> n \<noteq> ''C.tex'' \<longrightarrow>
               loopsOf (expandImport ?m {} n) = []
               \<and> ''D.tex'' \<notin> fst ` set (expansionsOf (expandImport ?m {} n))"
      unfolding iA by (simp add: eE)
    show "\<forall>n \<in> set (importedFiles diamondB). n \<noteq> ''D.tex'' \<longrightarrow>
               loopsOf (expandImport ?m {''B.tex''} n) = []
               \<and> ''D.tex'' \<notin> fst ` set (expansionsOf (expandImport ?m {''B.tex''} n))"
      unfolding iB by (simp add: eE)
    show "\<forall>n \<in> set (importedFiles diamondC). n \<noteq> ''D.tex'' \<longrightarrow>
               loopsOf (expandImport ?m {''C.tex''} n) = []
               \<and> ''D.tex'' \<notin> fst ` set (expansionsOf (expandImport ?m {''C.tex''} n))"
      unfolding iC by simp
    show "concat (map loopsOf (resolveTree diamondD ?m {''D.tex''})) = []"
      unfolding tD by simp
  qed (simp_all add: diamondB_def diamondC_def diamondD_def)
  show ?thesis
    using th iA iB iC out unfolding tD by simp
qed

text \<open>
  The claim as stated fails on the count: with \<^verbatim>\<open>B.tex\<close> naming \<^verbatim>\<open>D.tex\<close> in two
  directives, A still includes B and C, both still include D, which includes nothing,
  and no loop marker is emitted, yet D is expanded three times, twice below B and once
  below C.
\<close>

theorem diamond_count_counterexample:
  "importedFiles diamondA = [''B.tex'', ''C.tex'']
   \<and> importedFiles (bs # ''input{D}'' @ bs # ''input{D}'') = [''D.tex'', ''D.tex'']
   \<and> importedFiles diamondC = [''D.tex'']
   \<and> importedFiles ''dd'' = []
   \<and> concat (map loopsOf (resolveTree diamondA (diamondMap (bs # ''input{D}'' @ bs # ''input{D}'') ''dd'') {})) = []
   \<and> map fst (concat (map expansionsOf
         (resolveTree diamondA (diamondMap (bs # ''input{D}'' @ bs # ''input{D}'') ''dd'') {})))
       = [''B.tex'', ''D.tex'', ''D.tex'', ''C.tex'', ''D.tex'']
   \<and> resolveLatexImports diamondA (diamondMap (bs # ''input{D}'' @ bs # ''input{D}'') ''dd'') {}
       = beginMarker ''B.tex'' @ beginMarker ''D.tex'' @ ''dd'' @ endMarker ''D.tex''
          @ beginMarker ''D.tex'' @ ''dd'' @ endMarker ''D.tex'' @ endMarker ''B.tex'' @ '' | ''
          @ beginMarker ''C.tex'' @ ''c['' @ beginMarker ''D.tex'' @ ''dd'' @ endMarker ''D.tex'' @ '']''
          @ endMarker ''C.tex''"
  by (simp add: resolveLatexImports.simps resolveTree.simps diamondA_def diamondC_def diamondMap_def import_eval)

section \<open>Import resolution: files without content\<close>

lemma scanMatches_single_include:
  assumes "path \<noteq> []" "CHR ''}'' \<notin> set path"
  shows "scanMatches matchImport (bs # ''include{'' @ path @ ''}'')
         = [Match (bs # ''include{'' @ path @ ''}'') path]"
proof -
  have "matchImport (bs # ''include{'' @ path @ ''}'') = Some (path, [])"
    using assms by (simp add: matchImport_Some_iff)
  then show ?thesis by simp
qed

text \<open>
  C9.  When the file found for the name of a directive has the empty string as content,
  the directive (either spelling) is replaced by the missing-file marker, with no begin
  or end marker; and for every text and every processed set the resolution returns what
  it returns on the file map from which the files of that name are removed, where the
  lookup of the name finds nothing.
\<close>

theorem empty_file_is_missing_file:
  assumes "findByName fileMap filename = Some f" and "node_content f = Some []"
    and "importFilename path = filename" and "path \<noteq> []" and "CHR ''}'' \<notin> set path"
    and "filename \<notin> processed"
  shows "resolveLatexImports (bs # ''input{'' @ path @ ''}'') fileMap processed = missingMarker filename
       \<and> resolveLatexImports (bs # ''include{'' @ path @ ''}'') fileMap processed = missingMarker filename
       \<and> findByName (removeNamed filename fileMap) filename = None
       \<and> (\<forall>content visited. resolveLatexImports content fileMap visited
              = resolveLatexImports content (removeNamed filename fileMap) visited)"
proof -
  have "resolveLatexImports (bs # ''input{'' @ path @ ''}'') fileMap processed = missingMarker filename"
    unfolding resolveLatexImports_eq scanMatches_single_input[OF assms(4,5)]
    using assms by (simp add: expandText_def expandImportText_def)
  moreover have "resolveLatexImports (bs # ''include{'' @ path @ ''}'') fileMap processed = missingMarker filename"
    unfolding resolveLatexImports_eq scanMatches_single_include[OF assms(4,5)]
    using assms by (simp add: expandText_def expandImportText_def)
  moreover have "\<not> truthy (node_content f)" using assms(2) by simp
  ultimately show ?thesis
    using resolve_eq_removeNamed[OF assms(1)] by (simp add: findByName_removeNamed)
qed

theorem empty_file_is_missing_file_witness:
  "findByName emptyFileMap ''e.tex'' = Some (FileNode ''7'' ''e.tex'' File (Some []) None None)
   \<and> importFilename ''sub/e'' = ''e.tex''
   \<and> resolveLatexImports (bs # ''input{sub/e}'') emptyFileMap {} = missingMarker ''e.tex''
   \<and> resolveLatexImports (bs # ''include{sub/e}'') emptyFileMap {} = missingMarker ''e.tex''
   \<and> removeNamed ''e.tex'' emptyFileMap = []
   \<and> resolveLatexImports (bs # ''input{sub/e}'') [] {} = missingMarker ''e.tex''"
proof -
  have f: "findByName emptyFileMap ''e.tex'' = Some (FileNode ''7'' ''e.tex'' File (Some []) None None)"
    by (simp add: emptyFileMap_def findByName_def objectValues_def)
  have n: "importFilename ''sub/e'' = ''e.tex''"
    by (simp add: import_eval)
  have r: "removeNamed ''e.tex'' emptyFileMap = []"
    by (simp add: removeNamed_def emptyFileMap_def)
  have th: "resolveLatexImports (bs # ''input{'' @ ''sub/e'' @ ''}'') emptyFileMap {} = missingMarker ''e.tex''
       \<and> resolveLatexImports (bs # ''include{'' @ ''sub/e'' @ ''}'') emptyFileMap {} = missingMarker ''e.tex''
       \<and> findByName (removeNamed ''e.tex'' emptyFileMap) ''e.tex'' = None
       \<and> (\<forall>content visited. resolveLatexImports content emptyFileMap visited
              = resolveLatexImports content (removeNamed ''e.tex'' emptyFileMap) visited)"
    by (rule empty_file_is_missing_file[OF f _ n]) simp_all
  have a: "resolveLatexImports (bs # ''input{sub/e}'') emptyFileMap {} = missingMarker ''e.tex''"
    using th[THEN conjunct1] by simp
  have b: "resolveLatexImports (bs # ''include{sub/e}'') emptyFileMap {} = missingMarker ''e.tex''"
    using th[THEN conjunct2, THEN conjunct1] by simp
  have "resolveLatexImports (bs # ''input{sub/e}'') emptyFileMap {}
        = resolveLatexImports (bs # ''input{sub/e}'') (removeNamed ''e.tex'' emptyFileMap) {}"
    using th by blast
  then have c: "resolveLatexImports (bs # ''input{sub/e}'') [] {} = missingMarker ''e.tex''"
    using a by (simp only: r)
  show ?thesis
    using a b c f n r by blast
qed

section \<open>Import resolution: the entry file\<close>

text \<open>\<^verbatim>\<open>handleRecompile\<close> starts the resolution of the entry file from the empty set: the
  call passes no third argument, and the default is \<^verbatim>\<open>new Set()\<close>.\<close>

lemma handleRecompile_resolves_from_empty_set:
  assumes "findMainFile project activeFileId = Some f" "node_content f = Some content" "content \<noteq> []"
  shows "compiledContent (handleRecompile (Some project) activeFileId now1 now2 st)
         = resolveLatexImports content (flattenProjectFiles (root project) []) {}"
  using assms by (simp add: handleRecompile_def Let_def)

text \<open>
  C10.  Resolution starts from the empty set, and a name enters the set only when the file
  is expanded, so the name of the entry file is not in it.  A directive of the entry
  file's content that names the entry file is therefore expanded: at its place stands the
  expansion of the entry file, which is the resolution of the same content with the entry
  name processed; and there, one level deeper, the same directive becomes the loop marker.
\<close>

theorem entry_file_reentered_once:
  assumes "findByName fileMap entryName = Some f" and "node_content f = Some content"
    and "content \<noteq> []"
    and "i < length (scanMatches matchImport content)"
    and "scanMatches matchImport content ! i = Match whole path"
    and "importFilename path = entryName"
  shows "resolveTree content fileMap {} ! i = TIncluded entryName (resolveTree content fileMap {entryName})
       \<and> resolveTree content fileMap {entryName} ! i = TLoop entryName
       \<and> concat (map render (resolveTree content fileMap {})) = resolveLatexImports content fileMap {}"
proof -
  have "resolveTree content fileMap {} ! i = TIncluded entryName (resolveTree content fileMap {entryName})"
    using assms by (simp add: resolveTree_eq[of content fileMap "{}"] expandSeg_def expandImport_def)
  moreover have "resolveTree content fileMap {entryName} ! i = TLoop entryName"
    using assms by (simp add: resolveTree_eq expandSeg_def expandImport_def)
  ultimately show ?thesis
    by (simp add: render_resolveTree)
qed

theorem entry_file_reentered_once_witness:
  "scanMatches matchImport (''x'' @ bs # ''input{main}'') ! 1 = Match (bs # ''input{main}'') ''main''
   \<and> resolveTree (''x'' @ bs # ''input{main}'') selfMap {} ! 1
       = TIncluded ''main.tex'' [TChar CHR ''x'', TLoop ''main.tex'']
   \<and> resolveTree (''x'' @ bs # ''input{main}'') selfMap {''main.tex''} ! 1 = TLoop ''main.tex''
   \<and> resolveLatexImports (''x'' @ bs # ''input{main}'') selfMap {}
       = ''x'' @ beginMarker ''main.tex'' @ ''x'' @ loopMarker ''main.tex'' @ endMarker ''main.tex''"
proof -
  have f: "findByName selfMap ''main.tex''
           = Some (FileNode ''1'' ''main.tex'' File (Some (''x'' @ bs # ''input{main}'')) None None)"
    by (simp add: selfMap_def findByName_def objectValues_def)
  have s: "scanMatches matchImport (''x'' @ bs # ''input{main}'')
           = [Lit CHR ''x'', Match (bs # ''input{main}'') ''main'']"
    by (simp add: import_eval)
  have n: "importFilename ''main'' = ''main.tex''"
    by (simp add: import_eval)
  have t: "resolveTree (''x'' @ bs # ''input{main}'') selfMap {''main.tex''}
           = [TChar CHR ''x'', TLoop ''main.tex'']"
    by (simp add: resolveTree.simps import_eval)
  have out: "resolveLatexImports (''x'' @ bs # ''input{main}'') selfMap {}
       = ''x'' @ beginMarker ''main.tex'' @ ''x'' @ loopMarker ''main.tex'' @ endMarker ''main.tex''"
    by (simp add: resolveLatexImports.simps selfMap_def import_eval)
  show ?thesis
    using entry_file_reentered_once[OF f _ _ _ _ n, where i = 1 and whole = "bs # ''input{main}''"] s t out
    by simp
qed

section \<open>The compile step without an entry file\<close>

lemma findNode_in_nodesOf:
  "findNode nodes i = Some n \<Longrightarrow> n \<in> set (concat (map nodesOf nodes))"
proof (induction nodes i rule: findNode.induct)
  case (1 i)
  then show ?case by simp
next
  case (2 nid nm ty co ch op nodes i)
  then show ?case
    by (auto split: if_splits option.splits)
qed

lemma set_setKey: "set (setKey k v acc) \<subseteq> insert (k, v) (set acc)"
  by (induction acc) (auto split: if_splits)

lemma flattenProjectFiles_entries:
  "set (flattenProjectFiles node acc) \<subseteq> set acc \<union> (\<lambda>n. (node_name n, n)) ` set (nodesOf node)"
proof (induction node acc rule: flattenProjectFiles.induct)
  case (1 nid nm ty co ch op acc)
  show ?case
  proof (cases "ty = File")
    case True
    then show ?thesis using set_setKey[of nm "FileNode nid nm ty co ch op" acc] by auto
  next
    case False
    show ?thesis
    proof (cases ch)
      case None
      then show ?thesis using False by auto
    next
      case (Some cs)
      have "set (fold flattenProjectFiles ds a)
            \<subseteq> set a \<union> (\<lambda>n. (node_name n, n)) ` set (concat (map nodesOf ds))"
        if "set ds \<subseteq> set cs" for ds a
        using that
      proof (induction ds arbitrary: a)
        case Nil
        then show ?case by simp
      next
        case (Cons d ds)
        have "set (flattenProjectFiles d a) \<subseteq> set a \<union> (\<lambda>n. (node_name n, n)) ` set (nodesOf d)"
          using "1.IH"[OF False Some, of d a] Cons.prems by simp
        moreover have "set (fold flattenProjectFiles ds (flattenProjectFiles d a))
            \<subseteq> set (flattenProjectFiles d a) \<union> (\<lambda>n. (node_name n, n)) ` set (concat (map nodesOf ds))"
          using Cons.IH[of "flattenProjectFiles d a"] Cons.prems by simp
        ultimately show ?case by auto
      qed
      from this[of cs acc] show ?thesis using False Some by auto
    qed
  qed
qed

lemma findMainFile_SomeD:
  assumes "findMainFile project activeFileId = Some f"
  shows "f \<in> set (nodesOf (root project)) \<and> endsWith (node_name f) ''.tex''"
proof -
  let ?fileMap = "flattenProjectFiles (root project) []"
  let ?kids = "case node_children (root project) of None \<Rightarrow> [] | Some cs \<Rightarrow> cs"
  have entries: "set ?fileMap \<subseteq> (\<lambda>n. (node_name n, n)) ` set (nodesOf (root project))"
    using flattenProjectFiles_entries[of "root project" "[]"] by simp
  have from_find: "g \<in> set (nodesOf (root project)) \<and> endsWith (node_name g) ''.tex''"
    if "find (\<lambda>f. endsWith (node_name f) ''.tex'') (objectValues ?fileMap) = Some g" for g
  proof -
    have "g \<in> set (objectValues ?fileMap)" "endsWith (node_name g) ''.tex''"
      using that by (auto simp: find_Some_iff)
    then show ?thesis using entries by (auto simp: objectValues_def)
  qed
  have kids: "set (concat (map nodesOf ?kids)) \<subseteq> set (nodesOf (root project))"
    by (cases "root project") (auto split: option.splits)
  show ?thesis
  proof (cases "map_of ?fileMap ''main.tex''")
    case (Some g)
    then have "f = g" using assms by (simp add: findMainFile_def)
    moreover have "(''main.tex'', g) \<in> set ?fileMap" using Some by (rule map_of_SomeD)
    ultimately have "f \<in> set (nodesOf (root project))" "node_name f = ''main.tex''"
      using entries by auto
    then show ?thesis by (simp add: endsWith_def)
  next
    case None
    show ?thesis
    proof (cases "findNode ?kids activeFileId")
      case None2: None
      then show ?thesis using assms None from_find by (simp add: findMainFile_def)
    next
      case (Some n)
      show ?thesis
      proof (cases "endsWith (node_name n) ''.tex''")
        case True
        then have "f = n" using assms None Some by (simp add: findMainFile_def)
        moreover have "n \<in> set (concat (map nodesOf ?kids))"
          using Some by (rule findNode_in_nodesOf)
        ultimately show ?thesis using True kids by blast
      next
        case False
        then show ?thesis using assms None Some from_find by (simp add: findMainFile_def)
      qed
    qed
  qed
qed

text \<open>
  The second copy of \<^verbatim>\<open>resolveLatexImports\<close> in the repository tests
  \<^verbatim>\<open>processed.has(filename)\<close> first and then reads \<^verbatim>\<open>fileMap[filename]\<close> instead of
  searching the values by name.  On the file maps that \<^verbatim>\<open>handleRecompile\<close> builds every
  key is the name of its node, so both lookups find the same node and the two copies
  return the same text.
\<close>

lemma findByName_eq_map_of:
  "\<forall>(k, f) \<in> set fileMap. node_name f = k \<Longrightarrow> findByName fileMap filename = map_of fileMap filename"
  by (induction fileMap) (auto simp: findByName_def objectValues_def)

lemma flattened_lookup_by_key:
  "findByName (flattenProjectFiles node []) filename = map_of (flattenProjectFiles node []) filename"
  using flattenProjectFiles_entries[of node "[]"]
  by (intro findByName_eq_map_of) auto

text \<open>
  C7, as amended.  When no node of the project tree whose name ends in \<^verbatim>\<open>.tex\<close> has
  content (in particular when no node has such a name, as in an empty file set), the
  compile step has no entry file to compile and runs no stage: it replaces the log by
  exactly one entry, of severity error, and leaves the compiled content and the preview
  assets as they were.  The rendered output is thus the one of the state before: empty
  on a first compile, not emptied otherwise.
\<close>

theorem no_entry_file_logs_one_error:
  assumes "\<forall>n \<in> set (nodesOf (root project)). endsWith (node_name n) ''.tex'' \<longrightarrow> \<not> truthy (node_content n)"
  shows "handleRecompile (Some project) activeFileId now1 now2 st
           = st\<lparr>logs := [noMainFileLog now1], isCompiling := False\<rparr>
       \<and> logs (handleRecompile (Some project) activeFileId now1 now2 st) = [noMainFileLog now1]
       \<and> log_type (noMainFileLog now1) = Error
       \<and> compiledContent (handleRecompile (Some project) activeFileId now1 now2 st) = compiledContent st
       \<and> previewAssets (handleRecompile (Some project) activeFileId now1 now2 st) = previewAssets st"
proof -
  have "findMainFile project activeFileId = None
        \<or> \<not> truthy (node_content (the (findMainFile project activeFileId)))"
    using findMainFile_SomeD[of project activeFileId] assms by (cases "findMainFile project activeFileId") auto
  then show ?thesis
    by (auto simp: handleRecompile_def Let_def noMainFileLog_def)
qed

theorem no_entry_file_logs_one_error_witness:
  "objectValues (flattenProjectFiles (root emptyProject) []) = []
   \<and> handleRecompile (Some emptyProject) ''main_1'' 5 6 \<lparr>compiledContent = [], previewAssets = [], logs = [], isCompiling = True\<rparr>
       = \<lparr>compiledContent = [], previewAssets = [], logs = [noMainFileLog 5], isCompiling = False\<rparr>
   \<and> log_type (noMainFileLog 5) = Error"
  using no_entry_file_logs_one_error[of emptyProject "''main_1''" 5 6
      "\<lparr>compiledContent = [], previewAssets = [], logs = [], isCompiling = True\<rparr>"]
  by (simp add: emptyProject_def endsWith_def objectValues_def)

text \<open>
  The claim as stated fails after an earlier compile: with an empty file set the step
  writes the error entry and the compiled content stays what it was, not empty.
\<close>

theorem stale_output_counterexample:
  "objectValues (flattenProjectFiles (root emptyProject) []) = []
   \<and> compiledContent (handleRecompile (Some emptyProject) ''main_1'' 5 6 staleState) = ''old text''
   \<and> compiledContent (handleRecompile (Some emptyProject) ''main_1'' 5 6 staleState) \<noteq> []"
  by (simp add: handleRecompile_def findMainFile_def emptyProject_def staleState_def objectValues_def Let_def)

section \<open>Step 8: the asset bound to an image\<close>

lemma fold_overwrite:
  "fold (\<lambda>key src. if P key then g key else src) keys src0
   = (case filter P keys of [] \<Rightarrow> src0 | k # ks \<Rightarrow> g (last (k # ks)))"
proof (induction keys rule: rev_induct)
  case Nil
  then show ?case by simp
next
  case (snoc x xs)
  then show ?case by (auto split: list.splits)
qed

lemma getProperty_own:
  "key \<in> set (objectKeys assets) \<Longrightarrow>
   getProperty assets proto key = Str (the (map_of assets key)) \<and> map_of assets key \<noteq> None"
  by (auto simp: getProperty_def objectKeys_def map_of_eq_None_iff split: option.splits)

lemma getProperty_not_inherited:
  "proto name = Undefined \<Longrightarrow>
   truthyValue (getProperty assets proto name) = truthy (map_of assets name)
   \<and> (truthy (map_of assets name) \<longrightarrow> printed (getProperty assets proto name) = the (map_of assets name))"
  by (auto simp: getProperty_def split: option.splits)

lemma last_filter_in_keys:
  "filter P keys = k # ks \<Longrightarrow> last (k # ks) \<in> set keys"
  by (metis filter_is_subset last_in_set list.distinct(1) subsetD)

text \<open>
  C6, as amended.  For every asset map and every image directive whose basename, alone and
  with \<^verbatim>\<open>.png\<close>, \<^verbatim>\<open>.jpg\<close> or \<^verbatim>\<open>.jpeg\<close> appended, is not the name of a property that the
  asset map inherits, the callback resolves the basename in this order: (1) the asset
  under the basename itself, (2) the asset under the basename with \<^verbatim>\<open>.png\<close>, then
  \<^verbatim>\<open>.jpg\<close>, then \<^verbatim>\<open>.jpeg\<close> appended, (3) the asset under the last key, in the order of
  the keys, that contains the basename.  The earliest of (1) and (2) that yields a
  non-empty source binds it; otherwise the source of step (3) is bound when it is
  non-empty; otherwise the placeholder is emitted.
\<close>

theorem image_reference_resolution:
  assumes "\<forall>ext \<in> set ['''', ''.png'', ''.jpg'', ''.jpeg'']. proto (popOrPath path @ ext) = Undefined"
  shows "imageCallback assets proto whole path =
     (case boundAsset_amended assets (popOrPath path) of
        Some src \<Rightarrow> imgTag src (popOrPath path)
      | None \<Rightarrow> missingImage (popOrPath path))"
proof -
  let ?f = "popOrPath path"
  let ?keys = "filter (\<lambda>key. includes_str key ?f) (objectKeys assets)"
  have p: "proto ?f = Undefined" "proto (?f @ ''.png'') = Undefined"
    "proto (?f @ ''.jpg'') = Undefined" "proto (?f @ ''.jpeg'') = Undefined"
    using assms by auto
  note g = getProperty_not_inherited[where proto = proto and assets = assets, OF p(1)]
    getProperty_not_inherited[where proto = proto and assets = assets, OF p(2)]
    getProperty_not_inherited[where proto = proto and assets = assets, OF p(3)]
    getProperty_not_inherited[where proto = proto and assets = assets, OF p(4)]
  show ?thesis
  proof (cases "exactOrExtended assets ?f")
    case (Some src)
    then show ?thesis
      using g
      by (auto simp: imageCallback_def resolveSrc_def jsOr_def boundAsset_amended_def
          exactOrExtended_def Let_def split: if_splits option.splits)
  next
    case None
    then have none: "\<not> truthy (map_of assets ?f)" "\<not> truthy (map_of assets (?f @ ''.png''))"
      "\<not> truthy (map_of assets (?f @ ''.jpg''))" "\<not> truthy (map_of assets (?f @ ''.jpeg''))"
      by (auto simp: exactOrExtended_def split: if_splits option.splits)
    have src0: "\<not> truthyValue (jsOr (jsOr (jsOr (getProperty assets proto ?f)
                                 (getProperty assets proto (?f @ ''.png'')))
                           (getProperty assets proto (?f @ ''.jpg'')))
                     (getProperty assets proto (?f @ ''.jpeg'')))"
      using g none by (simp add: jsOr_def)
    show ?thesis
    proof (cases ?keys)
      case Nil
      then show ?thesis
        using None src0
        by (simp add: imageCallback_def resolveSrc_def boundAsset_amended_def fold_overwrite Let_def)
    next
      case (Cons k ks)
      then have "last (k # ks) \<in> set (objectKeys assets)"
        by (rule last_filter_in_keys)
      from getProperty_own[OF this, of proto] show ?thesis
        using None src0 Cons
        by (auto simp: imageCallback_def resolveSrc_def boundAsset_amended_def fold_overwrite
            bound_def Let_def)
    qed
  qed
qed

theorem image_reference_resolution_witness:
  "imageCallback [(''fig.png'', ''P''), (''fig'', ''E'')] objectPrototype
       (bs # ''includegraphics{img/fig}'') ''img/fig''
     = imgTag ''E'' ''fig''
   \<and> imageCallback [(''xfig.gif'', ''S''), (''fig.jpg'', ''J'')] objectPrototype
       (bs # ''includegraphics{fig}'') ''fig''
     = imgTag ''J'' ''fig''
   \<and> imageCallback twoFigures objectPrototype (bs # ''includegraphics{fig}'') ''fig''
     = imgTag ''data:B'' ''fig''
   \<and> imageCallback twoFigures objectPrototype (bs # ''includegraphics{nope}'') ''nope''
     = missingImage ''nope''"
  using image_reference_resolution[where path = "''img/fig''" and proto = objectPrototype
          and assets = "[(''fig.png'', ''P''), (''fig'', ''E'')]"
          and whole = "bs # ''includegraphics{img/fig}''"]
        image_reference_resolution[where path = "''fig''" and proto = objectPrototype
          and assets = "[(''xfig.gif'', ''S''), (''fig.jpg'', ''J'')]"
          and whole = "bs # ''includegraphics{fig}''"]
        image_reference_resolution[where path = "''fig''" and proto = objectPrototype
          and assets = twoFigures and whole = "bs # ''includegraphics{fig}''"]
        image_reference_resolution[where path = "''nope''" and proto = objectPrototype
          and assets = twoFigures and whole = "bs # ''includegraphics{nope}''"]
  by (simp add: boundAsset_amended_def exactOrExtended_def bound_def objectKeys_def twoFigures_def
      popOrPath_def lastSegment_def objectPrototype_def)

text \<open>
  The claim as stated fails in two ways.  At step (3) the loop over the keys overwrites the
  source at every key that contains the basename, so the last such key wins, not the
  first.  At step (1) the lookup \<^verbatim>\<open>assets[filename]\<close> also finds the properties inherited
  from \<^verbatim>\<open>Object.prototype\<close>: with no asset at all, the basename \<^verbatim>\<open>constructor\<close> is bound
  to the inherited function, printed into the \<^verbatim>\<open>src\<close> attribute, and no placeholder is
  emitted.
\<close>

theorem substring_fallback_counterexample:
  "boundAsset_claimed twoFigures ''fig'' = Some ''data:A''
   \<and> resolveSrc twoFigures objectPrototype ''fig'' = Str ''data:B''
   \<and> imagesStage twoFigures objectPrototype (bs # ''includegraphics[width=2cm]{img/fig}'')
       = imgTag ''data:B'' ''fig''
   \<and> boundAsset_claimed [] ''constructor'' = None
   \<and> imagesStage [] objectPrototype (bs # ''includegraphics{constructor}'')
       = imgTag ''function Object() { [native code] }'' ''constructor''"
  by (simp add: boundAsset_claimed_def exactOrExtended_def twoFigures_def objectKeys_def bound_def
      resolveSrc_def jsOr_def getProperty_def objectPrototype_def imagesStage_def replaceAll_def
      matchIncludegraphics_def braceGroup_def isLineTerminator_def imageCallback_def popOrPath_def
      lastSegment_def Let_def)

section \<open>Step 9: the counters\<close>

lemma includes_star: "includes_str s ''*'' \<longleftrightarrow> CHR ''*'' \<in> set s"
  by (induction s) auto

lemma starred_command: "starred (bs # command @ ''*{'' @ title @ ''}'')"
  by (simp add: starred_def includes_star)

lemma runPass_append:
  "runPass callback st (pre @ rest) =
     (let (st1, out1) = runPass callback st pre;
          (st2, out2) = runPass callback st1 rest
      in (st2, out1 @ out2))"
  by (induction callback st pre rule: runPass.induct) (auto simp: Let_def split: prod.splits)

lemma fst_runPass_Lit: "fst (runPass callback st (Lit c # segs)) = fst (runPass callback st segs)"
  by (simp add: case_prod_beta)

lemma fst_runPass_Match:
  "fst (runPass callback st (Match whole g # segs)) = fst (runPass callback (fst (callback st whole g)) segs)"
  by (simp add: case_prod_beta)

lemma chapter_pass_keeps_sections_zero:
  "sectionCount st = 0 \<Longrightarrow> subsectionCount st = 0 \<Longrightarrow>
   sectionCount (fst (runPass chapterCallback st segs)) = 0
   \<and> subsectionCount (fst (runPass chapterCallback st segs)) = 0"
proof (induction segs arbitrary: st)
  case Nil
  then show ?case by simp
next
  case (Cons s segs)
  show ?case
  proof (cases s)
    case (Lit c)
    then show ?thesis using Cons.IH[OF Cons.prems] by (simp only: fst_runPass_Lit)
  next
    case (Match whole title)
    let ?st1 = "fst (chapterCallback st whole title)"
    have "sectionCount ?st1 = 0" "subsectionCount ?st1 = 0"
      using Cons.prems by (simp_all add: chapterCallback_def Let_def)
    from Cons.IH[OF this] show ?thesis
      using Match by (simp only: fst_runPass_Match)
  qed
qed

lemma section_pass_keeps_subsections_zero:
  "subsectionCount st = 0 \<Longrightarrow> subsectionCount (fst (runPass sectionCallback st segs)) = 0"
proof (induction segs arbitrary: st)
  case Nil
  then show ?case by simp
next
  case (Cons s segs)
  show ?case
  proof (cases s)
    case (Lit c)
    then show ?thesis using Cons.IH[OF Cons.prems] by (simp only: fst_runPass_Lit)
  next
    case (Match whole title)
    let ?st1 = "fst (sectionCallback st whole title)"
    have "subsectionCount ?st1 = 0"
      by (simp add: sectionCallback_def Let_def)
    from Cons.IH[OF this] show ?thesis
      using Match by (simp only: fst_runPass_Match)
  qed
qed

lemma chapterCallback_starred:
  "starred whole \<Longrightarrow> sectionCount st = 0 \<Longrightarrow>
   chapterCallback st whole title = (st, h1Open @ title @ ''</h1>'')"
  by (simp add: chapterCallback_def)

lemma sectionCallback_starred:
  "starred whole \<Longrightarrow> subsectionCount st = 0 \<Longrightarrow>
   sectionCallback st whole title = (st, h2Open @ title @ ''</h2>'')"
  by (simp add: sectionCallback_def)

lemma subsectionCallback_starred:
  "starred whole \<Longrightarrow> subsectionCallback st whole title = (st, h3Open @ title @ ''</h3>'')"
  by (simp add: subsectionCallback_def)

text \<open>
  C4.  For every text, whenever one of the three replacements reaches a starred heading
  (\<^verbatim>\<open>\chapter*{title}\<close>, \<^verbatim>\<open>\section*{title}\<close>, \<^verbatim>\<open>\subsection*{title}\<close>), the callback
  returns the three counters as they were when it was called, and the heading it emits
  is the title alone, without a number.  The state at the call is the one reached by the
  replacement on the matches before it; the section replacement starts from the state
  the chapter replacement ended in, and the subsection replacement from the state the
  section replacement ended in.
\<close>

theorem starred_heading_keeps_counters:
  assumes "chapterPass initCounters processed = (st1, p1)"
    and "sectionPass st1 p1 = (st2, p2)"
  shows "(\<forall>pre title post.
            scanMatches (matchHeading ''chapter'') processed
              = pre @ Match (bs # ''chapter*{'' @ title @ ''}'') title # post
            \<longrightarrow> chapterCallback (fst (runPass chapterCallback initCounters pre))
                  (bs # ''chapter*{'' @ title @ ''}'') title
                = (fst (runPass chapterCallback initCounters pre), h1Open @ title @ ''</h1>''))
       \<and> (\<forall>pre title post.
            scanMatches (matchHeading ''section'') p1
              = pre @ Match (bs # ''section*{'' @ title @ ''}'') title # post
            \<longrightarrow> sectionCallback (fst (runPass sectionCallback st1 pre))
                  (bs # ''section*{'' @ title @ ''}'') title
                = (fst (runPass sectionCallback st1 pre), h2Open @ title @ ''</h2>''))
       \<and> (\<forall>pre title post.
            scanMatches (matchHeading ''subsection'') p2
              = pre @ Match (bs # ''subsection*{'' @ title @ ''}'') title # post
            \<longrightarrow> subsectionCallback (fst (runPass subsectionCallback st2 pre))
                  (bs # ''subsection*{'' @ title @ ''}'') title
                = (fst (runPass subsectionCallback st2 pre), h3Open @ title @ ''</h3>''))"
proof -
  have init: "sectionCount initCounters = 0" "subsectionCount initCounters = 0"
    by (simp_all add: initCounters_def)
  have st1: "subsectionCount st1 = 0"
    using chapter_pass_keeps_sections_zero[OF init, of "scanMatches (matchHeading ''chapter'') processed"]
      assms(1)
    by (simp add: chapterPass_def)
  have a: "chapterCallback (fst (runPass chapterCallback initCounters pre))
             (bs # ''chapter*{'' @ title @ ''}'') title
           = (fst (runPass chapterCallback initCounters pre), h1Open @ title @ ''</h1>'')" for pre title
    using chapter_pass_keeps_sections_zero[OF init, of pre] starred_command[of "''chapter''" title]
    by (simp add: chapterCallback_starred)
  have b: "sectionCallback (fst (runPass sectionCallback st1 pre))
             (bs # ''section*{'' @ title @ ''}'') title
           = (fst (runPass sectionCallback st1 pre), h2Open @ title @ ''</h2>'')" for pre title
    using section_pass_keeps_subsections_zero[OF st1, of pre] starred_command[of "''section''" title]
    by (simp add: sectionCallback_starred)
  have c: "subsectionCallback st (bs # ''subsection*{'' @ title @ ''}'') title
           = (st, h3Open @ title @ ''</h3>'')" for st title
    using starred_command[of "''subsection''" title]
    by (simp add: subsectionCallback_starred)
  show ?thesis
    using a b c by blast
qed

lemmas structure_eval =
  structureStage_def chapterPass_def sectionPass_def subsectionPass_def matchHeading_def
  braceGroup_def chapterCallback_def sectionCallback_def subsectionCallback_def starred_def
  initCounters_def showNat.simps digitChar_def Let_def h1Open_def h2Open_def h3Open_def

theorem starred_heading_keeps_counters_witness:
  "chapterPass initCounters structDoc = (oneChapter, structP1)
   \<and> sectionPass oneChapter structP1 = (oneChapter, structP2)
   \<and> chapterCallback oneChapter (bs # ''chapter*{P}'') ''P'' = (oneChapter, h1Open @ ''P</h1>'')
   \<and> sectionCallback oneChapter (bs # ''section*{S}'') ''S'' = (oneChapter, h2Open @ ''S</h2>'')
   \<and> subsectionCallback oneChapter (bs # ''subsection*{U}'') ''U'' = (oneChapter, h3Open @ ''U</h3>'')
   \<and> structureStage structDoc
       = h1Open @ ''1. A</h1>'' @ h1Open @ ''P</h1>'' @ h2Open @ ''S</h2>'' @ h3Open @ ''U</h3>''
          @ h3Open @ ''1.0.1 V</h3>''"
proof -
  have h1: "chapterPass initCounters structDoc = (oneChapter, structP1)"
    by (simp add: structDoc_def structP1_def oneChapter_def structure_eval)
  have h2: "sectionPass oneChapter structP1 = (oneChapter, structP2)"
    by (simp add: structP1_def structP2_def oneChapter_def structure_eval)
  have h3: "subsectionPass oneChapter structP2
            = (\<lparr>chapterCount = 1, sectionCount = 0, subsectionCount = 1\<rparr>,
               h1Open @ ''1. A</h1>'' @ h1Open @ ''P</h1>'' @ h2Open @ ''S</h2>'' @ h3Open @ ''U</h3>''
                 @ h3Open @ ''1.0.1 V</h3>'')"
    by (simp add: structP2_def oneChapter_def structure_eval)
  have s1: "scanMatches (matchHeading ''chapter'') structDoc
            = [Match (bs # ''chapter{A}'') ''A''] @ Match (bs # ''chapter*{'' @ ''P'' @ ''}'') ''P''
                # map Lit (bs # ''section*{S}'' @ bs # ''subsection*{U}'' @ bs # ''subsection{V}'')"
    by (simp add: structDoc_def matchHeading_def braceGroup_def)
  have s2: "scanMatches (matchHeading ''section'') structP1
            = map Lit (h1Open @ ''1. A</h1>'' @ h1Open @ ''P</h1>'')
                @ Match (bs # ''section*{'' @ ''S'' @ ''}'') ''S''
                # map Lit (bs # ''subsection*{U}'' @ bs # ''subsection{V}'')"
    by (simp add: structP1_def h1Open_def matchHeading_def braceGroup_def)
  have s3: "scanMatches (matchHeading ''subsection'') structP2
            = map Lit (h1Open @ ''1. A</h1>'' @ h1Open @ ''P</h1>'' @ h2Open @ ''S</h2>'')
                @ Match (bs # ''subsection*{'' @ ''U'' @ ''}'') ''U''
                # [Match (bs # ''subsection{V}'') ''V'']"
    by (simp add: structP2_def h1Open_def h2Open_def matchHeading_def braceGroup_def)
  note th = starred_heading_keeps_counters[OF h1 h2]
  have p1: "fst (chapterCallback initCounters (bs # ''chapter{A}'') ''A'') = oneChapter"
    by (simp add: oneChapter_def structure_eval)
  have p2: "fst (runPass sectionCallback oneChapter (map Lit cs)) = oneChapter" for cs
    by (induction cs) (simp_all add: case_prod_beta)
  have p3: "fst (runPass subsectionCallback oneChapter (map Lit cs)) = oneChapter" for cs
    by (induction cs) (simp_all add: case_prod_beta)
  have a: "chapterCallback oneChapter (bs # ''chapter*{P}'') ''P'' = (oneChapter, h1Open @ ''P</h1>'')"
    using th[THEN conjunct1, rule_format, OF s1] by (simp add: p1)
  have b: "sectionCallback oneChapter (bs # ''section*{S}'') ''S'' = (oneChapter, h2Open @ ''S</h2>'')"
    using th[THEN conjunct2, THEN conjunct1, rule_format, OF s2, unfolded p2] by simp
  have c: "subsectionCallback oneChapter (bs # ''subsection*{U}'') ''U'' = (oneChapter, h3Open @ ''U</h3>'')"
    using th[THEN conjunct2, THEN conjunct2, rule_format, OF s3, unfolded p3] by simp
  have d: "structureStage structDoc
       = h1Open @ ''1. A</h1>'' @ h1Open @ ''P</h1>'' @ h2Open @ ''S</h2>'' @ h3Open @ ''U</h3>''
          @ h3Open @ ''1.0.1 V</h3>''"
    by (simp add: structureStage_def h1 h2 h3)
  show ?thesis
    using h1 h2 a b c d by blast
qed

text \<open>
  C3.  The counters are not updated in textual order across the levels: the chapter
  replacement runs over the whole text before the section replacement starts.  Three
  chapter headings are labelled 1, 2 and 3, but a section heading between the second and
  the third chapter is labelled 3.1, not 2.1.
\<close>

theorem section_label_uses_final_chapter_count:
  "structureStage (bs # ''chapter{A}'' @ bs # ''chapter{B}'' @ bs # ''section{S}'' @ bs # ''chapter{C}'')
   = h1Open @ ''1. A</h1>'' @ h1Open @ ''2. B</h1>'' @ h2Open @ ''3.1 S</h2>'' @ h1Open @ ''3. C</h1>''"
  by (simp add: structure_eval)

section \<open>Step 13: the order of the math replacements\<close>

lemma replaceAll_Lit:
  "scanMatches m s = map Lit s \<Longrightarrow> replaceAll m callback s = s"
  unfolding replaceAll_def by (simp only: concat_map_Lit)

lemma scan_display_no_dollar:
  "CHR ''$'' \<notin> set t \<Longrightarrow> scanMatches matchDisplayMath (t @ ''$'') = map Lit (t @ ''$'')"
  by (induction t) (auto simp: matchDisplayMath_def)

lemma scan_display_single_dollars:
  assumes "CHR ''$'' \<notin> set r"
  shows "scanMatches matchDisplayMath (''$'' @ r @ ''$'') = map Lit (''$'' @ r @ ''$'')"
proof (cases r)
  case Nil
  then show ?thesis by (simp add: matchDisplayMath_def)
next
  case (Cons c cs)
  then have "matchDisplayMath (''$'' @ r @ ''$'') = None"
    using assms by (auto simp: matchDisplayMath_def)
  then show ?thesis
    using scan_display_no_dollar[OF assms] by simp
qed

lemma scan_bracket_no_backslash:
  "bs \<notin> set s \<Longrightarrow> scanMatches matchBracketMath s = map Lit s"
  by (induction s) (auto simp: matchBracketMath_def)

text \<open>
  C5.  The single-dollar replacement runs before the double-dollar one.  On the text
  \<^verbatim>\<open>$$e$$\<close> it matches \<^verbatim>\<open>$e$\<close> inside the span; when the inline rendering of \<^verbatim>\<open>e\<close>
  holds no dollar sign and no backslash, the later replacements find nothing, and the
  result is that inline rendering between two dollar signs, not the display block.
\<close>

theorem display_span_rendered_inline:
  assumes "inlineMathCallback katex ''$e$'' ''e'' = r" and "CHR ''$'' \<notin> set r" and "bs \<notin> set r"
  shows "mathStage katex ''$$e$$'' = ''$'' @ r @ ''$''
       \<and> mathStage katex ''$$e$$'' \<noteq> displayMathCallback katex ''$$e$$'' ''e''"
proof -
  have p1: "replaceAll matchInlineMath (inlineMathCallback katex) ''$$e$$'' = ''$'' @ r @ ''$''"
    using assms(1) by (simp add: replaceAll_def matchInlineMath_def)
  have p2: "replaceAll matchDisplayMath (displayMathCallback katex) (''$'' @ r @ ''$'') = ''$'' @ r @ ''$''"
    using assms(2) by (intro replaceAll_Lit scan_display_single_dollars)
  have p3: "replaceAll matchBracketMath (displayMathCallback katex) (''$'' @ r @ ''$'') = ''$'' @ r @ ''$''"
    using assms(3) by (intro replaceAll_Lit scan_bracket_no_backslash) simp
  have out: "mathStage katex ''$$e$$'' = ''$'' @ r @ ''$''"
    by (simp only: mathStage_def Let_def p1 p2 p3)
  have d: "hd (displayMathCallback katex ''$$e$$'' ''e'') = CHR ''<''"
    by (simp add: displayMathCallback_def displayOpen_def displayFallbackOpen_def split: option.splits)
  have "''$'' @ r @ ''$'' \<noteq> displayMathCallback katex ''$$e$$'' ''e''"
  proof
    assume "''$'' @ r @ ''$'' = displayMathCallback katex ''$$e$$'' ''e''"
    then have "hd (''$'' @ r @ ''$'') = CHR ''<''" using d by simp
    then show False by simp
  qed
  then show ?thesis using out by simp
qed

theorem display_span_rendered_inline_witness:
  "inlineMathCallback katexStub ''$e$'' ''e'' = ''<inline>e''
   \<and> mathStage katexStub ''$$e$$'' = ''$<inline>e$''
   \<and> displayMathCallback katexStub ''$$e$$'' ''e'' = displayOpen @ ''<display>e</div>''"
proof -
  have r: "inlineMathCallback katexStub ''$e$'' ''e'' = ''<inline>e''"
    by (simp add: inlineMathCallback_def katexStub_def)
  show ?thesis
    using display_span_rendered_inline[OF r] r
    by (simp add: displayMathCallback_def katexStub_def)
qed

end
